theory Spec2Isabelle
  imports Complex_Main "HOL-Library.Multiset"
begin

section \<open>Colour extraction with k-means++ (app/api/colors.py)\<close>

text \<open>
  The module clusters the pixels of an image in RGB space.  It has three functions:
  \<^verbatim>\<open>kmeans_plusplus_init\<close> (seeding), \<^verbatim>\<open>kmeans\<close> (Lloyd's loop) and
  \<^verbatim>\<open>extract_colors_from_image\<close> (aggregation into hex colours and percentages).

  Conventions of the embedding:
  \<^item> A pixel array of shape \<open>(n, 3)\<close> is a list of triples.  The \<^verbatim>\<open>float64\<close> entries are
    idealised as exact reals: rounding and overflow are not modelled.  The one
    float-specific behaviour that matters here, the invalid operation \<open>0 / 0\<close> that
    numpy evaluates to NaN, is written out wherever the source divides.
  \<^item> \<^verbatim>\<open>np.random.Generator\<close> is library code.  Its three entry points that the module
    calls are taken as a parameter, a record of functions over an arbitrary generator
    state \<open>'g\<close>; each draw returns the drawn index and the next state.
  \<^item> An exception is a value \<open>Inl e\<close> of the result type.
\<close>

subsection \<open>Data\<close>

type_synonym pixel = "real \<times> real \<times> real"

datatype failure =
    ValueError          \<comment> \<open>raised by numpy\<close>
  | IndexError          \<comment> \<open>an index outside the array\<close>
  | UnboundLocalError   \<comment> \<open>\<^verbatim>\<open>labels\<close> read before any iteration assigned it\<close>
  | NaN_center          \<comment> \<open>not an exception: the mean of an empty selection, which numpy
                            evaluates to a row of NaN; the model stops there\<close>

record 'g np_random =
  default_rng :: "int \<Rightarrow> 'g"                           \<comment> \<open>\<^verbatim>\<open>np.random.default_rng(seed)\<close>\<close>
  rng_integers :: "'g \<Rightarrow> nat \<Rightarrow> nat \<times> 'g"               \<comment> \<open>\<^verbatim>\<open>rng.integers(high)\<close>, \<open>high > 0\<close>\<close>
  rng_choice :: "'g \<Rightarrow> nat \<Rightarrow> real list \<Rightarrow> nat \<times> 'g"    \<comment> \<open>\<^verbatim>\<open>rng.choice(n, p=p)\<close>, \<open>p\<close> a distribution\<close>

record extracted_color =
  hex :: string
  percentage :: real

subsection \<open>Array primitives\<close>

text \<open>
  \<^verbatim>\<open>np.sum((pixels - c) ** 2, axis=1)\<close>: for a centre \<open>c\<close>, the squared Euclidean distance
  of every row of \<^verbatim>\<open>pixels\<close>.
\<close>

fun sq_dist :: "pixel \<Rightarrow> pixel \<Rightarrow> real" where
  "sq_dist (pr, pg, pb) (cr, cg, cb) = (pr - cr)\<^sup>2 + (pg - cg)\<^sup>2 + (pb - cb)\<^sup>2"

definition sq_dists :: "pixel list \<Rightarrow> pixel \<Rightarrow> real list" where
  "sq_dists pixels c = map (\<lambda>p. sq_dist p c) pixels"

text \<open>
  \<^verbatim>\<open>np.argmin\<close> on a sequence: a linear scan that keeps the first minimum.  The sequence
  is given as its first entry and the rest, so it is never empty.
\<close>

fun argmin_scan :: "nat \<Rightarrow> real \<Rightarrow> nat \<Rightarrow> real list \<Rightarrow> nat" where
  "argmin_scan best bv i [] = best"
| "argmin_scan best bv i (x # xs) =
     (if x < bv then argmin_scan i x (Suc i) xs else argmin_scan best bv (Suc i) xs)"

definition argmin :: "real \<Rightarrow> real list \<Rightarrow> nat" where
  "argmin x xs = argmin_scan 0 x 1 xs"

text \<open>\<^verbatim>\<open>np.min\<close> on a sequence, given in the same way.\<close>

definition amin :: "real \<Rightarrow> real list \<Rightarrow> real" where
  "amin x xs = foldl min x xs"

text \<open>
  A two-dimensional array of distances is the list of its rows, one row per centre and
  one column per pixel.  \<^verbatim>\<open>np.argmin(a, axis=0)\<close> and \<^verbatim>\<open>np.min(a, axis=0)\<close> reduce every
  column; the array is given as its first row and the other rows.
\<close>

definition column :: "real list list \<Rightarrow> nat \<Rightarrow> real list" where
  "column rows j = map (\<lambda>row. row ! j) rows"

definition argmin_axis0 :: "real list \<Rightarrow> real list list \<Rightarrow> nat list" where
  "argmin_axis0 row rows = map (\<lambda>j. argmin (row ! j) (column rows j)) [0..<length row]"

definition amin_axis0 :: "real list \<Rightarrow> real list list \<Rightarrow> real list" where
  "amin_axis0 row rows = map (\<lambda>j. amin (row ! j) (column rows j)) [0..<length row]"

text \<open>
  \<^verbatim>\<open>pixels[labels == k]\<close>: the rows whose label is \<open>k\<close>, in order.  In \<^verbatim>\<open>kmeans\<close> the
  mask has one entry per row, the labels being those of the assignment phase.
\<close>

definition select_rows :: "pixel list \<Rightarrow> nat list \<Rightarrow> nat \<Rightarrow> pixel list" where
  "select_rows pixels labels k = map fst (filter (\<lambda>(p, l). l = k) (zip pixels labels))"

text \<open>
  \<^verbatim>\<open>.mean(axis=0)\<close>: the componentwise sum divided by the number of rows.  On an empty
  selection numpy divides \<open>0\<close> by \<open>0\<close> and returns NaN in every component.
\<close>

definition mean_axis0 :: "pixel list \<Rightarrow> failure + pixel" where
  "mean_axis0 rows =
     (if rows = [] then Inl NaN_center
      else Inr (sum_list (map fst rows) / real (length rows),
                sum_list (map (fst \<circ> snd) rows) / real (length rows),
                sum_list (map (snd \<circ> snd) rows) / real (length rows)))"

text \<open>
  \<^verbatim>\<open>np.isclose(a, b)\<close> with the default \<^verbatim>\<open>rtol=1e-05\<close> and \<^verbatim>\<open>atol=1e-08\<close>:
  \<open>|a - b| \<le> atol + rtol * |b|\<close>.
\<close>

definition isclose :: "real \<Rightarrow> real \<Rightarrow> bool" where
  "isclose a b \<longleftrightarrow> \<bar>a - b\<bar> \<le> 1 / 100000000 + (1 / 100000) * \<bar>b\<bar>"

fun isclose_row :: "pixel \<Rightarrow> pixel \<Rightarrow> bool" where
  "isclose_row (ar, ag, ab) (br, bg, bb) \<longleftrightarrow> isclose ar br \<and> isclose ag bg \<and> isclose ab bb"

text \<open>
  \<^verbatim>\<open>np.allclose(a, b)\<close> on two arrays of rows.  Arrays of equal shape are compared entry
  by entry; a single row is broadcast against the rows of the other array; \<^verbatim>\<open>np.array([])\<close>
  has shape \<open>(0,)\<close>, which broadcasts against no array with rows of three entries.
\<close>

definition allclose :: "pixel list \<Rightarrow> pixel list \<Rightarrow> failure + bool" where
  "allclose a b =
     (if a = [] \<and> b = [] then Inr True
      else if a = [] \<or> b = [] then Inl ValueError
      else if length a = length b then Inr (list_all2 isclose_row a b)
      else if length a = 1 then Inr (list_all (isclose_row (hd a)) b)
      else if length b = 1 then Inr (list_all (\<lambda>r. isclose_row r (hd b)) a)
      else Inl ValueError)"

text \<open>Running a list of fallible computations in order; the first failure wins.\<close>

fun collect :: "(failure + 'a) list \<Rightarrow> failure + 'a list" where
  "collect [] = Inr []"
| "collect (x # xs) =
     (case x of Inl e \<Rightarrow> Inl e
      | Inr v \<Rightarrow> (case collect xs of Inl e \<Rightarrow> Inl e | Inr vs \<Rightarrow> Inr (v # vs)))"

subsection \<open>Seeding: \<^verbatim>\<open>kmeans_plusplus_init\<close>\<close>

text \<open>
  The body of \<^verbatim>\<open>for _ in range(1, n_clusters)\<close>, run \<open>m\<close> more times.  \<^verbatim>\<open>centers\<close> holds
  at least the first centre.  \<^verbatim>\<open>distances / distances.sum()\<close> with a zero sum is \<open>0 / 0\<close>
  in every entry (the distances are non-negative), an array of NaN, which
  \<^verbatim>\<open>rng.choice\<close> rejects with \<^verbatim>\<open>ValueError\<close>.
\<close>

fun seed_loop ::
  "'g np_random \<Rightarrow> pixel list \<Rightarrow> nat \<Rightarrow> 'g \<Rightarrow> pixel list \<Rightarrow> failure + (pixel list \<times> 'g)" where
  "seed_loop R pixels 0 rng centers = Inr (centers, rng)"
| "seed_loop R pixels (Suc m) rng centers =
     (case centers of
        [] \<Rightarrow> Inl ValueError
      | c # cs \<Rightarrow>
          (let distances = amin_axis0 (sq_dists pixels c) (map (sq_dists pixels) cs);
               total = sum_list distances
           in if total = 0 then Inl ValueError
              else
                (let probabilities = map (\<lambda>d. d / total) distances;
                     (next_idx, rng') = rng_choice R rng (length pixels) probabilities
                 in if next_idx < length pixels
                    then seed_loop R pixels m rng' (centers @ [pixels ! next_idx])
                    else Inl IndexError)))"

text \<open>
  \<^verbatim>\<open>rng.integers(0)\<close> raises \<^verbatim>\<open>ValueError\<close>.  \<^verbatim>\<open>range(1, n_clusters)\<close> has
  \<open>n_clusters - 1\<close> elements, none when \<open>n_clusters \<le> 1\<close>.
\<close>

definition kmeans_plusplus_init ::
  "'g np_random \<Rightarrow> pixel list \<Rightarrow> int \<Rightarrow> 'g \<Rightarrow> failure + (pixel list \<times> 'g)" where
  "kmeans_plusplus_init R pixels n_clusters rng =
     (let n_samples = length pixels
      in if n_samples = 0 then Inl ValueError
         else
           (let (first_idx, rng') = rng_integers R rng n_samples
            in if first_idx < n_samples
               then seed_loop R pixels (nat (n_clusters - 1)) rng' [pixels ! first_idx]
               else Inl IndexError))"

subsection \<open>Lloyd's loop: \<^verbatim>\<open>kmeans\<close>\<close>

text \<open>
  The program variables of the loop, and a counter of the iterations that ran (the
  counter is not in the source; claims about the number of iterations read it).
  \<^verbatim>\<open>labels\<close> is unbound until the first iteration assigns it.
\<close>

record kstate =
  centers :: "pixel list"
  labels :: "nat list option"
  iterations :: nat

datatype flow = Continue kstate | Break kstate

text \<open>
  The assignment phase, for the centres \<open>c # cs\<close>: the array \<^verbatim>\<open>distances\<close> has the row
  \<open>sq_dists pixels c'\<close> for every centre \<open>c'\<close>, and \<^verbatim>\<open>labels\<close> is its \<^verbatim>\<open>argmin\<close> along the
  first axis.
\<close>

definition assign :: "pixel list \<Rightarrow> pixel \<Rightarrow> pixel list \<Rightarrow> nat list" where
  "assign pixels c cs = argmin_axis0 (sq_dists pixels c) (map (sq_dists pixels) cs)"

text \<open>
  One entry of \<^verbatim>\<open>new_centers\<close>:
  \<^verbatim>\<open>pixels[labels == k].mean(axis=0) if np.any(labels == k) else centers[k]\<close>.
\<close>

definition new_center :: "pixel list \<Rightarrow> nat list \<Rightarrow> pixel list \<Rightarrow> nat \<Rightarrow> failure + pixel" where
  "new_center pixels lbls cs k =
     (if k \<in> set lbls then mean_axis0 (select_rows pixels lbls k)
      else if k < length cs then Inr (cs ! k)
      else Inl IndexError)"

definition update :: "pixel list \<Rightarrow> nat list \<Rightarrow> pixel list \<Rightarrow> nat \<Rightarrow> failure + pixel list" where
  "update pixels lbls cs n_clusters = collect (map (new_center pixels lbls cs) [0..<n_clusters])"

text \<open>The loop body.  On \<^verbatim>\<open>break\<close> the variable \<^verbatim>\<open>centers\<close> keeps its old value.\<close>

definition iteration :: "pixel list \<Rightarrow> nat \<Rightarrow> kstate \<Rightarrow> failure + flow" where
  "iteration pixels n_clusters st =
     (case centers st of
        [] \<Rightarrow> Inl ValueError
      | c # cs \<Rightarrow>
          (let lbls = assign pixels c cs
           in case update pixels lbls (centers st) n_clusters of
                Inl e \<Rightarrow> Inl e
              | Inr new_centers \<Rightarrow>
                  (case allclose (centers st) new_centers of
                     Inl e \<Rightarrow> Inl e
                   | Inr close \<Rightarrow>
                       if close
                       then Inr (Break (st\<lparr>labels := Some lbls,
                                           iterations := Suc (iterations st)\<rparr>))
                       else Inr (Continue \<lparr>centers = new_centers, labels = Some lbls,
                                           iterations = Suc (iterations st)\<rparr>))))"

text \<open>\<^verbatim>\<open>for _ in range(m)\<close> around a body that may \<^verbatim>\<open>break\<close>.\<close>

fun for_range :: "nat \<Rightarrow> (kstate \<Rightarrow> failure + flow) \<Rightarrow> kstate \<Rightarrow> failure + kstate" where
  "for_range 0 body st = Inr st"
| "for_range (Suc m) body st =
     (case body st of
        Inl e \<Rightarrow> Inl e
      | Inr (Break st') \<Rightarrow> Inr st'
      | Inr (Continue st') \<Rightarrow> for_range m body st')"

text \<open>\<^verbatim>\<open>kmeans\<close> up to its \<^verbatim>\<open>return\<close>: the final values of the loop's variables.\<close>

definition kmeans_run ::
  "'g np_random \<Rightarrow> pixel list \<Rightarrow> int \<Rightarrow> int \<Rightarrow> int \<Rightarrow> failure + kstate" where
  "kmeans_run R pixels n_clusters max_iterations random_state =
     (let rng = default_rng R random_state
      in case kmeans_plusplus_init R pixels n_clusters rng of
           Inl e \<Rightarrow> Inl e
         | Inr (centers0, rng') \<Rightarrow>
             for_range (nat max_iterations) (iteration pixels (nat n_clusters))
               \<lparr>centers = centers0, labels = None, iterations = 0\<rparr>)"

definition kmeans ::
  "'g np_random \<Rightarrow> pixel list \<Rightarrow> int \<Rightarrow> int \<Rightarrow> int \<Rightarrow> failure + (pixel list \<times> nat list)" where
  "kmeans R pixels n_clusters max_iterations random_state =
     (case kmeans_run R pixels n_clusters max_iterations random_state of
        Inl e \<Rightarrow> Inl e
      | Inr st \<Rightarrow>
          (case labels st of
             None \<Rightarrow> Inl UnboundLocalError
           | Some lbls \<Rightarrow> Inr (centers st, lbls)))"

subsection \<open>Aggregation: \<^verbatim>\<open>extract_colors_from_image\<close>\<close>

text \<open>\<^verbatim>\<open>.astype(int)\<close> on a finite float: truncation towards zero.\<close>

definition astype_int :: "real \<Rightarrow> int" where
  "astype_int x = (if 0 \<le> x then \<lfloor>x\<rfloor> else \<lceil>x\<rceil>)"

definition clamp :: "int \<Rightarrow> int" where
  "clamp v = max 0 (min 255 v)"

text \<open>
  The format specification \<^verbatim>\<open>02x\<close>: lowercase hexadecimal digits, a minus sign for a
  negative number, zeros after the sign up to a total width of two.
\<close>

definition hex_digit :: "nat \<Rightarrow> char" where
  "hex_digit d = ''0123456789abcdef'' ! (d mod 16)"

fun hex_digits :: "nat \<Rightarrow> string" where
  "hex_digits n = (if n < 16 then [hex_digit n] else hex_digits (n div 16) @ [hex_digit n])"

definition format_02x :: "int \<Rightarrow> string" where
  "format_02x v =
     (if v < 0
      then (let ds = hex_digits (nat (- v)) in CHR ''-'' # replicate (1 - length ds) CHR ''0'' @ ds)
      else (let ds = hex_digits (nat v) in replicate (2 - length ds) CHR ''0'' @ ds))"

fun hex_color :: "pixel \<Rightarrow> string" where
  "hex_color (cr, cg, cb) =
     (let r = clamp (astype_int cr); g = clamp (astype_int cg); b = clamp (astype_int cb)
      in CHR ''#'' # format_02x r @ format_02x g @ format_02x b)"

text \<open>
  \<^verbatim>\<open>np.unique(labels, return_counts=True)\<close>: the distinct values in ascending order and
  how often each occurs.
\<close>

definition np_unique :: "nat list \<Rightarrow> nat list \<times> nat list" where
  "np_unique lbls = (let u = sort (remdups lbls) in (u, map (count_list lbls) u))"

text \<open>\<^verbatim>\<open>np.where(unique == cluster_id)[0][0]\<close>: the first position holding the value.\<close>

fun where_first :: "nat list \<Rightarrow> nat \<Rightarrow> nat" where
  "where_first [] v = 0"
| "where_first (u # us) v = (if u = v then 0 else Suc (where_first us v))"

definition cluster_result :: "pixel list \<Rightarrow> nat list \<Rightarrow> nat \<Rightarrow> failure + extracted_color" where
  "cluster_result cs lbls cluster_id =
     (if cluster_id < length cs
      then (let (unique, counts) = np_unique lbls;
                total_pixels = length lbls;
                hex_str = hex_color (cs ! cluster_id);
                pct =
                  (if cluster_id \<in> set unique
                   then (let idx = where_first unique cluster_id
                         in real (counts ! idx) / real total_pixels * 100)
                   else 0)
            in Inr \<lparr>hex = hex_str, percentage = pct\<rparr>)
      else Inl IndexError)"

text \<open>
  The image enters as the array \<^verbatim>\<open>pixels\<close> of line 95, the resized RGB image as rows of
  floats; resizing and mode conversion are the imaging library's.  \<^verbatim>\<open>kmeans\<close> is called
  with its defaults \<^verbatim>\<open>max_iterations=100\<close> and \<^verbatim>\<open>random_state=42\<close>.  \<^verbatim>\<open>list.sort\<close> with
  \<^verbatim>\<open>reverse=True\<close> is stable: entries with equal keys keep their order.
\<close>

definition extract_colors_from_image ::
  "'g np_random \<Rightarrow> pixel list \<Rightarrow> int \<Rightarrow> failure + extracted_color list" where
  "extract_colors_from_image R pixels num_colors =
     (case kmeans R pixels num_colors 100 42 of
        Inl e \<Rightarrow> Inl e
      | Inr (cs, lbls) \<Rightarrow>
          (case collect (map (cluster_result cs lbls) [0..<nat num_colors]) of
             Inl e \<Rightarrow> Inl e
           | Inr results \<Rightarrow> Inr (sort_key (\<lambda>x. - percentage x) results)))"

subsection \<open>A generator that replays a script\<close>

text \<open>
  A stand-in for the library's generator, used to run the functions on concrete inputs:
  its state is the list of indices still to be drawn, the same for every seed.
\<close>

definition next_draw :: "nat list \<Rightarrow> nat \<times> nat list" where
  "next_draw g = (case g of [] \<Rightarrow> (0, []) | i # g' \<Rightarrow> (i, g'))"

definition replay :: "nat list \<Rightarrow> nat list np_random" where
  "replay script =
     \<lparr>default_rng = (\<lambda>seed. script),
      rng_integers = (\<lambda>g high. next_draw g),
      rng_choice = (\<lambda>g n p. next_draw g)\<rparr>"


section \<open>Properties\<close>

subsection \<open>The first minimum\<close>

lemma argmin_scan_inv:
  assumes "i = length pre" "best < length pre" "bv = pre ! best"
    "\<forall>j<length pre. bv \<le> pre ! j" "\<forall>j<best. bv < pre ! j"
  shows "argmin_scan best bv i xs < length (pre @ xs) \<and>
         (\<forall>j<length (pre @ xs). (pre @ xs) ! argmin_scan best bv i xs \<le> (pre @ xs) ! j) \<and>
         (\<forall>j<argmin_scan best bv i xs. (pre @ xs) ! argmin_scan best bv i xs < (pre @ xs) ! j)"
  using assms
proof (induction xs arbitrary: pre best bv i)
  case Nil
  then show ?case by simp
next
  case (Cons x xs)
  let ?pre = "pre @ [x]"
  show ?case
  proof (cases "x < bv")
    case True
    have a: "Suc i = length ?pre" using Cons.prems by simp
    have b: "i < length ?pre" using Cons.prems by simp
    have c: "x = ?pre ! i" using Cons.prems by simp
    have d: "\<forall>j<length ?pre. x \<le> ?pre ! j"
      using Cons.prems True by (auto simp: nth_append less_Suc_eq)
    have e: "\<forall>j<i. x < ?pre ! j"
      using Cons.prems True by (auto simp: nth_append)
    from Cons.IH[OF a b c d e] True show ?thesis by simp
  next
    case False
    have a: "Suc i = length ?pre" using Cons.prems by simp
    have b: "best < length ?pre" using Cons.prems by simp
    have c: "bv = ?pre ! best" using Cons.prems by (simp add: nth_append)
    have d: "\<forall>j<length ?pre. bv \<le> ?pre ! j"
      using Cons.prems False by (auto simp: nth_append less_Suc_eq)
    have e: "\<forall>j<best. bv < ?pre ! j"
      using Cons.prems by (auto simp: nth_append)
    from Cons.IH[OF a b c d e] False show ?thesis by simp
  qed
qed

lemma argmin_first_minimum:
  "argmin x xs < length (x # xs) \<and>
   (\<forall>j<length (x # xs). (x # xs) ! argmin x xs \<le> (x # xs) ! j) \<and>
   (\<forall>j<argmin x xs. (x # xs) ! argmin x xs < (x # xs) ! j)"
  using argmin_scan_inv[of 1 "[x]" 0 x xs] by (simp add: argmin_def)

lemma column_sq_dists:
  "j < length pixels \<Longrightarrow> column (map (sq_dists pixels) cs) j = map (sq_dist (pixels ! j)) cs"
  by (simp add: column_def sq_dists_def)

lemma assign_eq:
  "assign pixels c cs = map (\<lambda>p. argmin (sq_dist p c) (map (sq_dist p) cs)) pixels"
  by (rule nth_equalityI) (simp_all add: assign_def argmin_axis0_def sq_dists_def column_def comp_def)

lemma nearest_eq:
  "amin_axis0 (sq_dists pixels c) (map (sq_dists pixels) cs)
     = map (\<lambda>p. amin (sq_dist p c) (map (sq_dist p) cs)) pixels"
  by (rule nth_equalityI) (simp_all add: amin_axis0_def sq_dists_def column_def comp_def)

lemma length_assign: "length (assign pixels c cs) = length pixels"
  by (simp add: assign_eq)

lemma assign_nth:
  "j < length pixels \<Longrightarrow>
   assign pixels c cs ! j = argmin (sq_dist (pixels ! j) c) (map (sq_dist (pixels ! j)) cs)"
  by (simp add: assign_eq)

lemma sq_dist_nth_Cons:
  "i < length (c # cs) \<Longrightarrow>
   (sq_dist p c # map (sq_dist p) cs) ! i = sq_dist p ((c # cs) ! i)"
  by (cases i) simp_all

lemma assign_label:
  assumes "j < length pixels"
  shows "assign pixels c cs ! j < length (c # cs) \<and>
     (\<forall>i<length (c # cs). sq_dist (pixels ! j) ((c # cs) ! (assign pixels c cs ! j))
                         \<le> sq_dist (pixels ! j) ((c # cs) ! i)) \<and>
     (\<forall>i<assign pixels c cs ! j. sq_dist (pixels ! j) ((c # cs) ! (assign pixels c cs ! j))
                         < sq_dist (pixels ! j) ((c # cs) ! i))"
proof -
  let ?p = "pixels ! j"
  let ?l = "argmin (sq_dist ?p c) (map (sq_dist ?p) cs)"
  let ?ds = "sq_dist ?p c # map (sq_dist ?p) cs"
  have l: "assign pixels c cs ! j = ?l" using assms by (rule assign_nth)
  have am: "?l < length ?ds" "\<forall>i<length ?ds. ?ds ! ?l \<le> ?ds ! i" "\<forall>i<?l. ?ds ! ?l < ?ds ! i"
    using argmin_first_minimum[of "sq_dist ?p c" "map (sq_dist ?p) cs"] by blast+
  have len: "length ?ds = length (c # cs)" by simp
  have lt: "?l < length (c # cs)" using am(1) by simp
  have nth: "\<And>i. i < length (c # cs) \<Longrightarrow> ?ds ! i = sq_dist ?p ((c # cs) ! i)"
    by (rule sq_dist_nth_Cons)
  have "\<forall>i<length (c # cs). sq_dist ?p ((c # cs) ! ?l) \<le> sq_dist ?p ((c # cs) ! i)"
    using am(2) nth lt len by metis
  moreover have "\<forall>i<?l. sq_dist ?p ((c # cs) ! ?l) < sq_dist ?p ((c # cs) ! i)"
  proof (intro allI impI)
    fix i assume "i < ?l"
    then have "i < length (c # cs)" using lt by linarith
    then show "sq_dist ?p ((c # cs) ! ?l) < sq_dist ?p ((c # cs) ! i)"
      using am(3) nth lt \<open>i < ?l\<close> by metis
  qed
  ultimately show ?thesis using l lt by simp
qed

lemma assign_lt: "l \<in> set (assign pixels c cs) \<Longrightarrow> l < Suc (length cs)"
  using assign_label[of _ pixels c cs] by (auto simp: in_set_conv_nth length_assign)

subsection \<open>The update phase\<close>

lemma collect_Inr_D: "collect xs = Inr vs \<Longrightarrow> xs = map Inr vs"
  by (induction xs arbitrary: vs) (auto split: sum.splits)

lemma collect_map_Inr_id: "collect (map Inr vs) = Inr vs"
  by (induction vs) auto

lemma collect_Inr_iff: "collect xs = Inr vs \<longleftrightarrow> xs = map Inr vs"
  using collect_Inr_D collect_map_Inr_id by blast

lemma collect_Inl: "collect xs = Inl e \<Longrightarrow> Inl e \<in> set xs"
  by (induction xs) (auto split: sum.splits)

lemma collect_all_Inr:
  "\<forall>x\<in>set xs. \<exists>v. x = Inr v \<Longrightarrow> \<exists>vs. collect xs = Inr vs"
proof (cases "collect xs")
  case (Inl e)
  assume "\<forall>x\<in>set xs. \<exists>v. x = Inr v"
  with collect_Inl[OF Inl] show ?thesis by auto
next
  case (Inr vs)
  then show ?thesis by blast
qed

lemma collect_map_Inr:
  assumes "collect (map f ks) = Inr vs"
  shows "length vs = length ks" and "\<And>i. i < length ks \<Longrightarrow> f (ks ! i) = Inr (vs ! i)"
proof -
  from assms have eq: "map f ks = map Inr vs" by (simp add: collect_Inr_iff)
  then show len: "length vs = length ks" by (metis length_map)
  fix i assume "i < length ks"
  then have "map f ks ! i = f (ks ! i)" "map Inr vs ! i = Inr (vs ! i)"
    using len by simp_all
  then show "f (ks ! i) = Inr (vs ! i)" using eq by metis
qed

lemma select_rows_nonempty:
  assumes "k \<in> set lbls" "length lbls \<le> length pixels"
  shows "select_rows pixels lbls k \<noteq> []"
proof -
  from assms(1) obtain j where j: "j < length lbls" "lbls ! j = k"
    by (auto simp: in_set_conv_nth)
  then have "(pixels ! j, k) \<in> set (zip pixels lbls)"
    using assms(2) by (auto simp: set_zip)
  then have "filter (\<lambda>(p, l). l = k) (zip pixels lbls) \<noteq> []"
    by (auto simp: filter_empty_conv)
  then show ?thesis by (simp add: select_rows_def)
qed

lemma select_rows_indices:
  "length lbls = length pixels \<Longrightarrow>
   select_rows pixels lbls k = map ((!) pixels) (filter (\<lambda>j. lbls ! j = k) [0..<length pixels])"
proof (induction pixels arbitrary: lbls rule: rev_induct)
  case Nil
  then show ?case by (simp add: select_rows_def)
next
  case (snoc p ps)
  then obtain ls l where l: "lbls = ls @ [l]" "length ls = length ps"
    by (cases lbls rule: rev_cases) auto
  have ih: "select_rows ps ls k = map ((!) ps) (filter (\<lambda>j. ls ! j = k) [0..<length ps])"
    using snoc.IH l by simp
  have f: "filter (\<lambda>j. (ls @ [l]) ! j = k) [0..<length ps] = filter (\<lambda>j. ls ! j = k) [0..<length ps]"
    using l by (intro filter_cong) (auto simp: nth_append)
  have m: "map ((!) (ps @ [p])) (filter (\<lambda>j. ls ! j = k) [0..<length ps])
         = map ((!) ps) (filter (\<lambda>j. ls ! j = k) [0..<length ps])"
    by (intro map_cong) (auto simp: nth_append)
  show ?case using l ih f m by (simp add: select_rows_def nth_append)
qed

lemma new_center_not_NaN:
  "length lbls \<le> length pixels \<Longrightarrow> new_center pixels lbls cs k \<noteq> Inl NaN_center"
  by (simp add: new_center_def mean_axis0_def select_rows_nonempty)

lemma new_center_defined:
  "length lbls \<le> length pixels \<Longrightarrow> k < length cs \<Longrightarrow> \<exists>v. new_center pixels lbls cs k = Inr v"
  by (simp add: new_center_def mean_axis0_def select_rows_nonempty del: split_paired_Ex)

lemma update_not_NaN:
  "length lbls \<le> length pixels \<Longrightarrow> update pixels lbls cs n \<noteq> Inl NaN_center"
  unfolding update_def using collect_Inl new_center_not_NaN by fastforce

lemma update_defined:
  assumes "length lbls \<le> length pixels" "n \<le> length cs"
  shows "\<exists>new. update pixels lbls cs n = Inr new"
  unfolding update_def
  by (rule collect_all_Inr) (use assms new_center_defined in fastforce)

lemma update_length: "update pixels lbls cs n = Inr new \<Longrightarrow> length new = n"
  unfolding update_def using collect_map_Inr(1) by fastforce

lemma update_nth:
  "update pixels lbls cs n = Inr new \<Longrightarrow> k < n \<Longrightarrow> new_center pixels lbls cs k = Inr (new ! k)"
  unfolding update_def using collect_map_Inr(2)[of "new_center pixels lbls cs" "[0..<n]" new k] by simp

subsection \<open>Seeding\<close>

lemma seed_loop_centers:
  "seed_loop R pixels m rng cs = Inr (cs', rng') \<Longrightarrow>
   \<exists>new. cs' = cs @ new \<and> length new = m \<and> set new \<subseteq> set pixels"
proof (induction m arbitrary: rng cs)
  case 0
  then show ?case by simp
next
  case (Suc m)
  from Suc.prems obtain idx g where
    idx: "idx < length pixels" and
    rec: "seed_loop R pixels m g (cs @ [pixels ! idx]) = Inr (cs', rng')"
    by (auto simp: Let_def split: list.splits if_splits prod.splits)
  from Suc.IH[OF rec] obtain new where
    new: "cs' = (cs @ [pixels ! idx]) @ new" "length new = m" "set new \<subseteq> set pixels"
    by blast
  have "cs' = cs @ (pixels ! idx # new)" using new(1) by simp
  moreover have "length (pixels ! idx # new) = Suc m" using new(2) by simp
  moreover have "set (pixels ! idx # new) \<subseteq> set pixels" using new(3) idx by simp
  ultimately show ?case by blast
qed

lemma seed_loop_failure:
  "seed_loop R pixels m rng cs = Inl e \<Longrightarrow> e = ValueError \<or> e = IndexError"
proof (induction m arbitrary: rng cs)
  case 0
  then show ?case by simp
next
  case (Suc m)
  then show ?case
    by (auto simp: Let_def split: list.splits if_splits prod.splits)
qed

lemma kmeans_plusplus_init_centers:
  assumes "kmeans_plusplus_init R pixels n_clusters rng = Inr (cs, rng')"
  shows "pixels \<noteq> []"
    and "length cs = Suc (nat (n_clusters - 1))"
    and "set cs \<subseteq> set pixels"
    and "fst (rng_integers R rng (length pixels)) < length pixels"
    and "cs ! 0 = pixels ! fst (rng_integers R rng (length pixels))"
proof -
  let ?i = "fst (rng_integers R rng (length pixels))"
  let ?g = "snd (rng_integers R rng (length pixels))"
  from assms show ne: "pixels \<noteq> []"
    by (auto simp: kmeans_plusplus_init_def)
  from assms ne show i: "?i < length pixels"
    by (auto simp: kmeans_plusplus_init_def Let_def split: prod.splits if_splits)
  from assms ne i have "seed_loop R pixels (nat (n_clusters - 1)) ?g [pixels ! ?i] = Inr (cs, rng')"
    by (auto simp: kmeans_plusplus_init_def Let_def split: prod.splits if_splits)
  from seed_loop_centers[OF this] obtain new where
    new: "cs = [pixels ! ?i] @ new" "length new = nat (n_clusters - 1)" "set new \<subseteq> set pixels"
    by blast
  show "length cs = Suc (nat (n_clusters - 1))" using new by simp
  show "set cs \<subseteq> set pixels" using new i by simp
  show "cs ! 0 = pixels ! ?i" using new by simp
qed

lemma kmeans_plusplus_init_failure:
  "kmeans_plusplus_init R pixels n_clusters rng = Inl e \<Longrightarrow> e = ValueError \<or> e = IndexError"
  using seed_loop_failure
  by (fastforce simp: kmeans_plusplus_init_def Let_def split: prod.splits if_splits)

subsection \<open>One iteration\<close>

lemma allclose_same_length:
  "a \<noteq> [] \<Longrightarrow> length a = length b \<Longrightarrow> allclose a b = Inr (list_all2 isclose_row a b)"
  by (auto simp: allclose_def)

lemma allclose_failure: "allclose a b = Inl e \<Longrightarrow> e = ValueError"
  by (auto simp: allclose_def split: if_splits)

lemma iteration_Inr:
  assumes "iteration pixels n st = Inr f"
  shows "\<exists>c cs new. centers st = c # cs \<and>
           update pixels (assign pixels c cs) (c # cs) n = Inr new \<and>
           (allclose (c # cs) new = Inr True \<and>
              f = Break (st\<lparr>labels := Some (assign pixels c cs),
                            iterations := Suc (iterations st)\<rparr>)
            \<or> allclose (c # cs) new = Inr False \<and>
              f = Continue \<lparr>centers = new, labels = Some (assign pixels c cs),
                             iterations = Suc (iterations st)\<rparr>)"
  using assms
  by (auto simp: iteration_def Let_def split: list.splits sum.splits if_splits)

lemma iteration_not_NaN: "iteration pixels n st \<noteq> Inl NaN_center"
proof
  assume a: "iteration pixels n st = Inl NaN_center"
  then obtain c cs where c: "centers st = c # cs"
    by (auto simp: iteration_def split: list.splits)
  have "update pixels (assign pixels c cs) (c # cs) n \<noteq> Inl NaN_center"
    by (rule update_not_NaN) (simp add: length_assign)
  with a c show False
    by (auto simp: iteration_def Let_def split: sum.splits if_splits dest: allclose_failure)
qed

lemma iteration_defined:
  assumes "length (centers st) = n" "1 \<le> n"
  shows "\<exists>f. iteration pixels n st = Inr f"
proof -
  from assms obtain c cs where c: "centers st = c # cs"
    by (cases "centers st") auto
  from update_defined[of "assign pixels c cs" pixels n "c # cs"] assms c
  obtain new where new: "update pixels (assign pixels c cs) (c # cs) n = Inr new"
    by (auto simp: length_assign)
  have "length new = length (c # cs)" using update_length[OF new] assms c by simp
  then have "allclose (c # cs) new = Inr (list_all2 isclose_row (c # cs) new)"
    by (intro allclose_same_length) simp_all
  with c new show ?thesis
    by (simp add: iteration_def Let_def)
qed

lemma iteration_no_clusters:
  "n = 0 \<Longrightarrow> iteration pixels n st = Inl ValueError"
  by (auto simp: iteration_def update_def allclose_def Let_def split: list.splits)

subsection \<open>The loop\<close>

lemma for_range_iteration:
  assumes "for_range m (iteration pixels n) st0 = Inr st" "length (centers st0) = n"
  shows "length (centers st) = n \<and> iterations st \<le> iterations st0 + m \<and>
     (m = 0 \<and> st = st0 \<or>
      (\<exists>c cs new. length (c # cs) = n \<and> labels st = Some (assign pixels c cs) \<and>
         iterations st0 < iterations st \<and>
         update pixels (assign pixels c cs) (c # cs) n = Inr new \<and>
         (allclose (c # cs) new = Inr True \<and> centers st = c # cs
          \<or> allclose (c # cs) new = Inr False \<and> centers st = new \<and>
            iterations st = iterations st0 + m)))"
  using assms
proof (induction m arbitrary: st0)
  case 0
  then show ?case by simp
next
  case (Suc m)
  from Suc.prems(1) obtain f where f: "iteration pixels n st0 = Inr f"
    by (auto split: sum.splits)
  from iteration_Inr[OF f] obtain c cs new where
    c: "centers st0 = c # cs" and
    new: "update pixels (assign pixels c cs) (c # cs) n = Inr new" and
    alt: "allclose (c # cs) new = Inr True \<and>
            f = Break (st0\<lparr>labels := Some (assign pixels c cs),
                           iterations := Suc (iterations st0)\<rparr>)
          \<or> allclose (c # cs) new = Inr False \<and>
            f = Continue \<lparr>centers = new, labels = Some (assign pixels c cs),
                           iterations = Suc (iterations st0)\<rparr>"
    by blast
  have len: "length (c # cs) = n" using c Suc.prems(2) by simp
  from alt show ?case
  proof
    assume b: "allclose (c # cs) new = Inr True \<and>
            f = Break (st0\<lparr>labels := Some (assign pixels c cs),
                           iterations := Suc (iterations st0)\<rparr>)"
    then have st: "st = st0\<lparr>labels := Some (assign pixels c cs),
                           iterations := Suc (iterations st0)\<rparr>"
      using Suc.prems(1) f by simp
    show ?thesis
      apply (rule conjI)
      subgoal using st Suc.prems(2) by simp
      apply (rule conjI)
      subgoal using st by simp
      apply (rule disjI2)
      apply (rule exI[of _ c], rule exI[of _ cs], rule exI[of _ new])
      using st len new b c by simp
  next
    assume k: "allclose (c # cs) new = Inr False \<and>
            f = Continue \<lparr>centers = new, labels = Some (assign pixels c cs),
                           iterations = Suc (iterations st0)\<rparr>"
    let ?st1 = "\<lparr>centers = new, labels = Some (assign pixels c cs),
                           iterations = Suc (iterations st0)\<rparr>"
    have rec: "for_range m (iteration pixels n) ?st1 = Inr st"
      using Suc.prems(1) f k by simp
    have len1: "length (centers ?st1) = n" using update_length[OF new] by simp
    note ih = Suc.IH[OF rec len1]
    show ?thesis
    proof (cases "m = 0")
      case True
      then have st: "st = ?st1" using rec by simp
      show ?thesis
        apply (rule conjI)
        subgoal using st len1 by simp
        apply (rule conjI)
        subgoal using st True by simp
        apply (rule disjI2)
        apply (rule exI[of _ c], rule exI[of _ cs], rule exI[of _ new])
        using st len new k True by simp
    next
      case False
      with ih obtain c' cs' new' where
        a: "length (centers st) = n" "iterations st \<le> iterations ?st1 + m"
           "length (c' # cs') = n" "labels st = Some (assign pixels c' cs')"
           "iterations ?st1 < iterations st"
           "update pixels (assign pixels c' cs') (c' # cs') n = Inr new'"
           "allclose (c' # cs') new' = Inr True \<and> centers st = c' # cs'
            \<or> allclose (c' # cs') new' = Inr False \<and> centers st = new' \<and>
              iterations st = iterations ?st1 + m"
        by blast
      show ?thesis
        apply (rule conjI)
        subgoal using a(1) .
        apply (rule conjI)
        subgoal using a(2) by simp
        apply (rule disjI2)
        apply (rule exI[of _ c'], rule exI[of _ cs'], rule exI[of _ new'])
        using a by auto
    qed
  qed
qed

lemma for_range_not_NaN: "for_range m (iteration pixels n) st0 \<noteq> Inl NaN_center"
proof (induction m arbitrary: st0)
  case 0
  then show ?case by simp
next
  case (Suc m)
  then show ?case
    using iteration_not_NaN[of pixels n st0]
    by (auto split: sum.splits flow.splits)
qed

lemma for_range_defined:
  "length (centers st0) = n \<Longrightarrow> 1 \<le> n \<Longrightarrow> \<exists>st. for_range m (iteration pixels n) st0 = Inr st"
proof (induction m arbitrary: st0)
  case 0
  then show ?case by simp
next
  case (Suc m)
  from iteration_defined[OF Suc.prems] obtain f where f: "iteration pixels n st0 = Inr f"
    by blast
  show ?case
  proof (cases f)
    case (Break st')
    with f show ?thesis by simp
  next
    case (Continue st')
    with iteration_Inr[OF f] obtain new cs where
      "update pixels (assign pixels (hd (centers st0)) cs) (centers st0) n = Inr new"
      "centers st' = new"
      by auto
    then have "length (centers st') = n" using update_length by blast
    from Suc.IH[OF this Suc.prems(2)] f Continue show ?thesis by simp
  qed
qed

lemma kmeans_run_Inr:
  assumes "kmeans_run R pixels n_clusters max_iterations random_state = Inr st"
  obtains centers0 rng' where
    "kmeans_plusplus_init R pixels n_clusters (default_rng R random_state) = Inr (centers0, rng')"
    "for_range (nat max_iterations) (iteration pixels (nat n_clusters))
        \<lparr>centers = centers0, labels = None, iterations = 0\<rparr> = Inr st"
  using assms by (auto simp: kmeans_run_def Let_def split: sum.splits prod.splits)

lemma kmeans_run_labelled:
  assumes "kmeans_run R pixels n_clusters max_iterations random_state = Inr st"
    and "labels st = Some lbls"
  shows "1 \<le> n_clusters \<and> 1 \<le> max_iterations \<and> length (centers st) = nat n_clusters \<and>
     iterations st \<le> nat max_iterations \<and>
     (\<exists>c cs new. length (c # cs) = nat n_clusters \<and> lbls = assign pixels c cs \<and>
         update pixels lbls (c # cs) (nat n_clusters) = Inr new \<and>
         (allclose (c # cs) new = Inr True \<and> centers st = c # cs
          \<or> allclose (c # cs) new = Inr False \<and> centers st = new \<and>
            iterations st = nat max_iterations))"
proof -
  from assms(1) obtain centers0 rng' where
    init: "kmeans_plusplus_init R pixels n_clusters (default_rng R random_state) = Inr (centers0, rng')"
    and loop: "for_range (nat max_iterations) (iteration pixels (nat n_clusters))
        \<lparr>centers = centers0, labels = None, iterations = 0\<rparr> = Inr st"
    by (rule kmeans_run_Inr)
  let ?st0 = "\<lparr>centers = centers0, labels = None, iterations = 0\<rparr>"
  have m: "1 \<le> max_iterations"
  proof (rule ccontr)
    assume "\<not> 1 \<le> max_iterations"
    then have "nat max_iterations = 0" by simp
    with loop have "st = ?st0" by simp
    with assms(2) show False by simp
  qed
  then obtain m' where m': "nat max_iterations = Suc m'"
    by (cases "nat max_iterations") auto
  have k: "1 \<le> n_clusters"
  proof (rule ccontr)
    assume "\<not> 1 \<le> n_clusters"
    then have "nat n_clusters = 0" by simp
    then have "iteration pixels (nat n_clusters) ?st0 = Inl ValueError"
      by (rule iteration_no_clusters)
    with loop m' show False by simp
  qed
  have len0: "length (centers ?st0) = nat n_clusters"
    using kmeans_plusplus_init_centers(2)[OF init] k by simp
  note fr = for_range_iteration[OF loop len0]
  have ne: "\<not> (nat max_iterations = 0 \<and> st = ?st0)" using m by simp
  from fr ne obtain c cs new where
    a: "length (c # cs) = nat n_clusters" "labels st = Some (assign pixels c cs)"
       "update pixels (assign pixels c cs) (c # cs) (nat n_clusters) = Inr new"
       "allclose (c # cs) new = Inr True \<and> centers st = c # cs
        \<or> allclose (c # cs) new = Inr False \<and> centers st = new \<and>
          iterations st = iterations ?st0 + nat max_iterations"
    by blast
  have l: "lbls = assign pixels c cs" using a(2) assms(2) by simp
  have "\<exists>c cs new. length (c # cs) = nat n_clusters \<and> lbls = assign pixels c cs \<and>
         update pixels lbls (c # cs) (nat n_clusters) = Inr new \<and>
         (allclose (c # cs) new = Inr True \<and> centers st = c # cs
          \<or> allclose (c # cs) new = Inr False \<and> centers st = new \<and>
            iterations st = nat max_iterations)"
    apply (rule exI[of _ c], rule exI[of _ cs], rule exI[of _ new])
    using a l by simp
  moreover have "length (centers st) = nat n_clusters" "iterations st \<le> nat max_iterations"
    using fr by simp_all
  ultimately show ?thesis using m k by blast
qed

lemma for_range_iterations_le:
  "for_range m (iteration pixels n) st0 = Inr st \<Longrightarrow> iterations st \<le> iterations st0 + m"
proof (induction m arbitrary: st0)
  case 0
  then show ?case by simp
next
  case (Suc m)
  from Suc.prems obtain f where f: "iteration pixels n st0 = Inr f"
    by (auto split: sum.splits)
  show ?case
  proof (cases f)
    case (Break st')
    with f Suc.prems iteration_Inr[OF f] show ?thesis by auto
  next
    case (Continue st')
    with f Suc.prems have rec: "for_range m (iteration pixels n) st' = Inr st" by simp
    from Continue iteration_Inr[OF f] have "iterations st' = Suc (iterations st0)" by auto
    with Suc.IH[OF rec] show ?thesis by simp
  qed
qed

subsection \<open>Aggregation\<close>

lemma where_first_nth:
  "v \<in> set us \<Longrightarrow> where_first us v < length us \<and> us ! where_first us v = v"
  by (induction us) auto

lemma np_unique_count:
  assumes "np_unique lbls = (unique, counts)" "k \<in> set unique"
  shows "counts ! where_first unique k = count_list lbls k"
proof -
  from assms(1) have c: "counts = map (count_list lbls) unique"
    by (auto simp: np_unique_def Let_def)
  from where_first_nth[OF assms(2)] show ?thesis unfolding c by simp
qed

lemma np_unique_set: "np_unique lbls = (unique, counts) \<Longrightarrow> set unique = set lbls"
  by (auto simp: np_unique_def Let_def)

lemma cluster_result_eq:
  assumes "k < length cs"
  shows "cluster_result cs lbls k =
     Inr \<lparr>hex = hex_color (cs ! k),
          percentage = real (count_list lbls k) / real (length lbls) * 100\<rparr>"
proof -
  obtain unique counts where u: "np_unique lbls = (unique, counts)"
    by (cases "np_unique lbls")
  show ?thesis
  proof (cases "k \<in> set lbls")
    case True
    then have "k \<in> set unique" using np_unique_set[OF u] by simp
    with assms u np_unique_count[OF u this] show ?thesis
      by (simp add: cluster_result_def Let_def)
  next
    case False
    then have "k \<notin> set unique" using np_unique_set[OF u] by simp
    moreover have "count_list lbls k = 0" using False by (simp add: count_list_0_iff)
    ultimately show ?thesis using assms u
      by (simp add: cluster_result_def Let_def)
  qed
qed

lemma collect_cluster_results:
  assumes "n \<le> length cs"
  shows "collect (map (cluster_result cs lbls) [0..<n]) =
     Inr (map (\<lambda>k. \<lparr>hex = hex_color (cs ! k),
          percentage = real (count_list lbls k) / real (length lbls) * 100\<rparr>) [0..<n])"
proof -
  have "map (cluster_result cs lbls) [0..<n] =
     map Inr (map (\<lambda>k. \<lparr>hex = hex_color (cs ! k),
          percentage = real (count_list lbls k) / real (length lbls) * 100\<rparr>) [0..<n])"
    using assms by (simp add: cluster_result_eq)
  then show ?thesis by (simp only: collect_map_Inr_id)
qed

lemma sum_count_list_upt:
  "\<forall>l\<in>set lbls. l < (n::nat) \<Longrightarrow> (\<Sum>k<n. count_list lbls k) = length lbls"
proof (induction lbls)
  case Nil
  then show ?case by simp
next
  case (Cons l lbls)
  have "(\<Sum>k<n. count_list (l # lbls) k) = (\<Sum>k<n. count_list lbls k + (if l = k then 1 else 0))"
    by (intro sum.cong) auto
  also have "\<dots> = (\<Sum>k<n. count_list lbls k) + (\<Sum>k<n. if l = k then 1 else 0)"
    by (simp add: sum.distrib)
  also have "(\<Sum>k<n. if l = k then 1 else 0) = (1::nat)"
    using Cons.prems by (simp add: sum.delta')
  finally show ?case using Cons by simp
qed

lemma sum_list_map_mset_cong:
  fixes f :: "'a \<Rightarrow> real"
  assumes "mset xs = mset ys"
  shows "sum_list (map f xs) = sum_list (map f ys)"
proof -
  have "sum_mset (mset (map f xs)) = sum_mset (mset (map f ys))"
    using assms by simp
  then show ?thesis by (simp only: sum_mset_sum_list)
qed

lemma kmeans_Inr:
  assumes "kmeans R pixels n_clusters max_iterations random_state = Inr (cs, lbls)"
  shows "1 \<le> n_clusters" and "length cs = nat n_clusters" and "length lbls = length pixels"
    and "pixels \<noteq> []" and "\<forall>l\<in>set lbls. l < nat n_clusters"
proof -
  from assms obtain st where
    st: "kmeans_run R pixels n_clusters max_iterations random_state = Inr st"
      "labels st = Some lbls" "centers st = cs"
    by (auto simp: kmeans_def split: sum.splits option.splits)
  from kmeans_run_labelled[OF st(1,2)] obtain c' cs' where
    c': "1 \<le> n_clusters" "length (centers st) = nat n_clusters"
      "length (c' # cs') = nat n_clusters" "lbls = assign pixels c' cs'"
    by blast
  show "1 \<le> n_clusters" by (rule c'(1))
  show "length cs = nat n_clusters" using c'(2) st(3) by simp
  show "length lbls = length pixels" using c'(4) by (simp add: length_assign)
  from st(1) obtain centers0 rng' where
    "kmeans_plusplus_init R pixels n_clusters (default_rng R random_state) = Inr (centers0, rng')"
    by (rule kmeans_run_Inr)
  then show "pixels \<noteq> []" by (rule kmeans_plusplus_init_centers(1))
  show "\<forall>l\<in>set lbls. l < nat n_clusters"
    using c'(3,4) assign_lt by fastforce
qed

lemma extract_colors_from_image_Inr:
  assumes "extract_colors_from_image R pixels num_colors = Inr results"
  obtains cs lbls where
    "kmeans R pixels num_colors 100 42 = Inr (cs, lbls)"
    "results = sort_key (\<lambda>x. - percentage x)
       (map (\<lambda>k. \<lparr>hex = hex_color (cs ! k),
          percentage = real (count_list lbls k) / real (length lbls) * 100\<rparr>) [0..<nat num_colors])"
proof -
  from assms obtain cs lbls where k: "kmeans R pixels num_colors 100 42 = Inr (cs, lbls)"
    by (auto simp: extract_colors_from_image_def split: sum.splits)
  have "nat num_colors \<le> length cs" using kmeans_Inr(2)[OF k] by simp
  from collect_cluster_results[OF this, of lbls] assms k
  have "results = sort_key (\<lambda>x. - percentage x)
       (map (\<lambda>k. \<lparr>hex = hex_color (cs ! k),
          percentage = real (count_list lbls k) / real (length lbls) * 100\<rparr>) [0..<nat num_colors])"
    by (simp add: extract_colors_from_image_def)
  with k show ?thesis by (rule that)
qed



declare hex_digits.simps [simp del]



subsection \<open>Dependence on the generator\<close>

lemma seed_loop_same_draws:
  assumes ch: "\<forall>g1 g2 n p. rel g1 g2 \<longrightarrow>
      fst (rng_choice R1 g1 n p) = fst (rng_choice R2 g2 n p) \<and>
      rel (snd (rng_choice R1 g1 n p)) (snd (rng_choice R2 g2 n p))"
    and r: "rel g1 g2"
  shows "map_sum id fst (seed_loop R1 pixels m g1 cs) = map_sum id fst (seed_loop R2 pixels m g2 cs)"
  using r
proof (induction m arbitrary: g1 g2 cs)
  case 0
  then show ?case by simp
next
  case (Suc m)
  show ?case
  proof (cases cs)
    case Nil
    then show ?thesis by simp
  next
    case (Cons c cs')
    let ?ds = "amin_axis0 (sq_dists pixels c) (map (sq_dists pixels) cs')"
    let ?p = "map (\<lambda>d. d / sum_list ?ds) ?ds"
    let ?d1 = "rng_choice R1 g1 (length pixels) ?p"
    let ?d2 = "rng_choice R2 g2 (length pixels) ?p"
    from ch Suc.prems have idx: "fst ?d1 = fst ?d2" and st: "rel (snd ?d1) (snd ?d2)"
      by blast+
    show ?thesis
    proof (cases "sum_list ?ds = 0")
      case True
      then have "seed_loop R1 pixels (Suc m) g1 cs = Inl ValueError"
        "seed_loop R2 pixels (Suc m) g2 cs = Inl ValueError"
        using Cons by (simp_all add: Let_def)
      then show ?thesis by simp
    next
      case nz: False
      show ?thesis
      proof (cases "fst ?d1 < length pixels")
        case True
        have e1: "seed_loop R1 pixels (Suc m) g1 cs
            = seed_loop R1 pixels m (snd ?d1) (cs @ [pixels ! fst ?d1])"
          using nz True Cons by (simp add: Let_def case_prod_beta)
        have e2: "seed_loop R2 pixels (Suc m) g2 cs
            = seed_loop R2 pixels m (snd ?d2) (cs @ [pixels ! fst ?d1])"
          using nz True Cons idx by (simp add: Let_def case_prod_beta)
        show ?thesis unfolding e1 e2 using st by (rule Suc.IH)
      next
        case False
        then have "seed_loop R1 pixels (Suc m) g1 cs = Inl IndexError"
          "seed_loop R2 pixels (Suc m) g2 cs = Inl IndexError"
          using nz Cons idx by (simp_all add: Let_def case_prod_beta)
        then show ?thesis by simp
      qed
    qed
  qed
qed

lemma kmeans_run_same_draws:
  assumes seed: "\<forall>s. rel (default_rng R1 s) (default_rng R2 s)"
    and ints: "\<forall>g1 g2 n. rel g1 g2 \<longrightarrow>
      fst (rng_integers R1 g1 n) = fst (rng_integers R2 g2 n) \<and>
      rel (snd (rng_integers R1 g1 n)) (snd (rng_integers R2 g2 n))"
    and ch: "\<forall>g1 g2 n p. rel g1 g2 \<longrightarrow>
      fst (rng_choice R1 g1 n p) = fst (rng_choice R2 g2 n p) \<and>
      rel (snd (rng_choice R1 g1 n p)) (snd (rng_choice R2 g2 n p))"
  shows "kmeans_run R1 pixels n_clusters max_iterations random_state
       = kmeans_run R2 pixels n_clusters max_iterations random_state"
proof -
  let ?g1 = "default_rng R1 random_state"
  let ?g2 = "default_rng R2 random_state"
  let ?d1 = "rng_integers R1 ?g1 (length pixels)"
  let ?d2 = "rng_integers R2 ?g2 (length pixels)"
  have r0: "rel ?g1 ?g2" using seed by blast
  with ints have idx: "fst ?d1 = fst ?d2" and st: "rel (snd ?d1) (snd ?d2)"
    by blast+
  have "map_sum id fst (seed_loop R1 pixels (nat (n_clusters - 1)) (snd ?d1) [pixels ! fst ?d1])
      = map_sum id fst (seed_loop R2 pixels (nat (n_clusters - 1)) (snd ?d2) [pixels ! fst ?d1])"
    using ch st by (rule seed_loop_same_draws)
  then have init: "map_sum id fst (kmeans_plusplus_init R1 pixels n_clusters ?g1)
      = map_sum id fst (kmeans_plusplus_init R2 pixels n_clusters ?g2)"
    using idx by (simp add: kmeans_plusplus_init_def Let_def case_prod_beta)
  show ?thesis
  proof (cases "kmeans_plusplus_init R1 pixels n_clusters ?g1")
    case (Inl e)
    with init have "kmeans_plusplus_init R2 pixels n_clusters ?g2 = Inl e"
      by (cases "kmeans_plusplus_init R2 pixels n_clusters ?g2") simp_all
    with Inl show ?thesis by (simp add: kmeans_run_def)
  next
    case (Inr r1)
    with init obtain r2 where r2: "kmeans_plusplus_init R2 pixels n_clusters ?g2 = Inr r2"
      "fst r2 = fst r1"
      by (cases "kmeans_plusplus_init R2 pixels n_clusters ?g2") simp_all
    with Inr show ?thesis by (cases r1; cases r2) (simp add: kmeans_run_def)
  qed
qed

subsection \<open>Running the functions on concrete inputs\<close>

lemma for_range_numeral:
  "for_range (numeral v) body st =
     (case body st of
        Inl e \<Rightarrow> Inl e
      | Inr (Break st') \<Rightarrow> Inr st'
      | Inr (Continue st') \<Rightarrow> for_range (pred_numeral v) body st')"
  by (simp add: numeral_eq_Suc)

lemma seed_loop_numeral:
  "seed_loop R pixels (numeral v) rng cs = seed_loop R pixels (Suc (pred_numeral v)) rng cs"
  by (simp only: numeral_eq_Suc)

lemmas run_defs = seed_loop_numeral kmeans_def kmeans_run_def kmeans_plusplus_init_def replay_def next_draw_def
     sq_dists_def column_def amin_axis0_def argmin_axis0_def upt_rec
     amin_def iteration_def assign_def argmin_def update_def new_center_def select_rows_def mean_axis0_def
     allclose_def isclose_def Let_def for_range_numeral power2_eq_square

lemmas agg_defs = extract_colors_from_image_def cluster_result_def np_unique_def clamp_def
  astype_int_def format_02x_def hex_digit_def hex_digits.simps


section \<open>The specification, statement by statement\<close>

text \<open>
  C1: the source has no fallback.  When all pixels are equal (a solid-colour image) and
  two or more clusters are asked for, the distances to the first centre are all zero,
  their sum is zero, and the division makes every probability NaN, which \<^verbatim>\<open>rng.choice\<close>
  rejects: seeding raises \<^verbatim>\<open>ValueError\<close> and returns no centre, whatever the generator
  draws, and the extraction fails with it.
\<close>

theorem seeding_zero_weight_sum_raises:
  assumes "pixels \<noteq> []" and "\<forall>p\<in>set pixels. p = q" and "2 \<le> n_clusters"
  shows "(\<forall>cs rng'. kmeans_plusplus_init R pixels n_clusters rng \<noteq> Inr (cs, rng')) \<and>
     (fst (rng_integers R rng (length pixels)) < length pixels \<longrightarrow>
        kmeans_plusplus_init R pixels n_clusters rng = Inl ValueError) \<and>
     (\<forall>results. extract_colors_from_image R pixels n_clusters \<noteq> Inr results)"
proof -
  obtain m where m: "nat (n_clusters - 1) = Suc m"
    using assms(3) by (cases "nat (n_clusters - 1)") auto
  have zero: "sum_list (amin_axis0 (sq_dists pixels q) []) = 0"
  proof -
    have "amin_axis0 (sq_dists pixels q) [] = map (\<lambda>p. amin (sq_dist p q) []) pixels"
      using nearest_eq[of pixels q "[]"] by simp
    also have "\<dots> = map (\<lambda>p. 0) pixels"
      using assms(2) by (intro map_cong) (auto simp: amin_def split: prod.splits)
    finally show ?thesis by simp
  qed
  have loop: "seed_loop R pixels (Suc m) g [q] = Inl ValueError" for g
    using zero by (simp add: Let_def)
  have raised: "kmeans_plusplus_init R pixels n_clusters g = Inl ValueError"
    if "fst (rng_integers R g (length pixels)) < length pixels" for g
  proof -
    have "pixels ! fst (rng_integers R g (length pixels)) = q" using that assms(2) by simp
    then show ?thesis
      using that assms(1) m loop by (simp add: kmeans_plusplus_init_def Let_def case_prod_beta)
  qed
  have never: "kmeans_plusplus_init R pixels n_clusters g \<noteq> Inr (cs, rng')" for g cs rng'
  proof (cases "fst (rng_integers R g (length pixels)) < length pixels")
    case True
    then show ?thesis using raised by simp
  next
    case False
    then show ?thesis
      using assms(1) by (simp add: kmeans_plusplus_init_def Let_def case_prod_beta)
  qed
  have "kmeans_run R pixels n_clusters 100 42 \<noteq> Inr st" for st
    using never[of "default_rng R 42"]
    by (auto simp: kmeans_run_def Let_def split: sum.splits)
  then have "kmeans R pixels n_clusters 100 42 \<noteq> Inr r" for r
    by (auto simp: kmeans_def split: sum.splits option.splits)
  then have fails: "extract_colors_from_image R pixels n_clusters \<noteq> Inr results" for results
    by (auto simp: extract_colors_from_image_def split: sum.splits)
  from never raised fails show ?thesis by blast
qed

theorem seeding_zero_weight_sum_raises_witness:
  "[(10,10,10),(10::real,10::real,10::real)] \<noteq> [] \<and> (2::int) \<le> 2 \<and>
   fst (rng_integers (replay [0, 1]) [0, 1] (length [(10,10,10),(10::real,10::real,10::real)]))
     < length [(10,10,10),(10::real,10::real,10::real)] \<and>
   kmeans_plusplus_init (replay [0, 1]) [(10,10,10),(10,10,10)] 2 [0, 1] = Inl ValueError \<and>
   extract_colors_from_image (replay [0, 1]) [(10,10,10),(10,10,10)] 2 = Inl ValueError"
proof -
  have eq: "\<forall>p\<in>set [(10,10,10),(10::real,10::real,10::real)]. p = (10,10,10)" by simp
  have e: "extract_colors_from_image (replay [0, 1]) [(10,10,10),(10,10,10)] 2 = Inl ValueError"
    by (simp add: run_defs agg_defs)
  have i: "fst (rng_integers (replay [0, 1]) [0, 1] (length [(10,10,10),(10::real,10::real,10::real)]))
     < length [(10,10,10),(10::real,10::real,10::real)]"
    by (simp add: replay_def next_draw_def)
  from seeding_zero_weight_sum_raises[OF _ eq order_refl, of "replay [0, 1]" "[0, 1]"] e i
  show ?thesis by simp
qed

text \<open>
  C2.  In an update phase whose labels are parallel to the pixels, the new centre of a
  cluster index that labels at least one pixel is the componentwise mean of exactly the
  pixels with that label (a non-empty selection), and the new centre of an index that
  labels no pixel is the previous centre.  Every iteration of the loop of \<^verbatim>\<open>kmeans\<close> is
  such an update: started with \<open>n\<close> centres, it computes the labels of the assignment
  phase against these centres, its update succeeds, the new centres are means or
  previous centres as above, and the loop either stops with the previous centres (when
  the convergence test holds) or goes on with exactly the new centres.  The centres a
  run returns are the previous or the new centres of such an update, and no run of
  \<^verbatim>\<open>kmeans\<close> ever takes the mean of an empty selection.
\<close>

theorem update_mean_or_previous:
  "(\<forall>new. length lbls = length pixels \<longrightarrow> update pixels lbls cs n = Inr new \<longrightarrow>
      (\<forall>k<n. let rows = map ((!) pixels) (filter (\<lambda>j. lbls ! j = k) [0..<length pixels]) in
          (k \<in> set (lbls) \<longrightarrow> rows \<noteq> [] \<and>
             new ! k = (sum_list (map fst rows) / real (length rows),
                        sum_list (map (fst \<circ> snd) rows) / real (length rows),
                        sum_list (map (snd \<circ> snd) rows) / real (length rows))) \<and>
          (k \<notin> set (lbls) \<longrightarrow> new ! k = cs ! k))) \<and>
   (length (c # cs') = n \<longrightarrow>
      (\<exists>new. update pixels (assign pixels c cs') (c # cs') n = Inr new)) \<and>
   (length (centers st) = n \<longrightarrow> 1 \<le> n \<longrightarrow>
      (\<exists>a as new. centers st = a # as \<and>
         update pixels (assign pixels a as) (centers st) n = Inr new \<and> length new = n \<and>
         (\<forall>k<n. let rows = map ((!) pixels) (filter (\<lambda>j. assign pixels a as ! j = k) [0..<length pixels]) in
            (k \<in> set (assign pixels a as) \<longrightarrow> rows \<noteq> [] \<and>
               new ! k = (sum_list (map fst rows) / real (length rows),
                          sum_list (map (fst \<circ> snd) rows) / real (length rows),
                          sum_list (map (snd \<circ> snd) rows) / real (length rows))) \<and>
            (k \<notin> set (assign pixels a as) \<longrightarrow> new ! k = centers st ! k)) \<and>
         iteration pixels n st =
           (if allclose (centers st) new = Inr True
            then Inr (Break (st\<lparr>labels := Some (assign pixels a as), iterations := Suc (iterations st)\<rparr>))
            else Inr (Continue \<lparr>centers = new, labels = Some (assign pixels a as), iterations = Suc (iterations st)\<rparr>)) \<and>
         for_range (Suc m) (iteration pixels n) st =
           (if allclose (centers st) new = Inr True
            then Inr (st\<lparr>labels := Some (assign pixels a as), iterations := Suc (iterations st)\<rparr>)
            else for_range m (iteration pixels n) \<lparr>centers = new, labels = Some (assign pixels a as), iterations = Suc (iterations st)\<rparr>))) \<and>
   (\<forall>final final_lbls.
      kmeans_run R pixels n_clusters max_iterations random_state = Inr final \<longrightarrow>
      labels final = Some final_lbls \<longrightarrow>
      (\<exists>prev new. length prev = nat n_clusters \<and> final_lbls = assign pixels (hd prev) (tl prev) \<and>
         update pixels final_lbls prev (nat n_clusters) = Inr new \<and>
         (\<forall>k<nat n_clusters. let rows = map ((!) pixels) (filter (\<lambda>j. final_lbls ! j = k) [0..<length pixels]) in
            (k \<in> set (final_lbls) \<longrightarrow> rows \<noteq> [] \<and>
               new ! k = (sum_list (map fst rows) / real (length rows),
                          sum_list (map (fst \<circ> snd) rows) / real (length rows),
                          sum_list (map (snd \<circ> snd) rows) / real (length rows))) \<and>
            (k \<notin> set (final_lbls) \<longrightarrow> new ! k = prev ! k)) \<and>
         (centers final = prev \<or> centers final = new))) \<and>
   kmeans_run R pixels n_clusters max_iterations random_state \<noteq> Inl NaN_center \<and>
   kmeans R pixels n_clusters max_iterations random_state \<noteq> Inl NaN_center"
proof -
  have mop: "let rows = map ((!) pixels) (filter (\<lambda>j. ls ! j = i) [0..<length pixels]) in
        (i \<in> set (ls) \<longrightarrow> rows \<noteq> [] \<and>
           nw ! i = (sum_list (map fst rows) / real (length rows),
                      sum_list (map (fst \<circ> snd) rows) / real (length rows),
                      sum_list (map (snd \<circ> snd) rows) / real (length rows))) \<and>
        (i \<notin> set (ls) \<longrightarrow> nw ! i = ps ! i)"
    if len: "length ls = length pixels" and up: "update pixels ls ps n' = Inr nw" and i: "i < n'"
    for ls ps n' nw i
  proof -
    let ?rows = "map ((!) pixels) (filter (\<lambda>j. ls ! j = i) [0..<length pixels])"
    have sel: "select_rows pixels ls i = ?rows" using len by (rule select_rows_indices)
    have nc: "new_center pixels ls ps i = Inr (nw ! i)" using up i by (rule update_nth)
    have a: "?rows \<noteq> [] \<and>
             nw ! i = (sum_list (map fst ?rows) / real (length ?rows),
                        sum_list (map (fst \<circ> snd) ?rows) / real (length ?rows),
                        sum_list (map (snd \<circ> snd) ?rows) / real (length ?rows))"
      if "i \<in> set ls"
    proof -
      have ne: "select_rows pixels ls i \<noteq> []"
        using that len by (intro select_rows_nonempty) simp_all
      from nc that have "mean_axis0 (select_rows pixels ls i) = Inr (nw ! i)"
        by (simp add: new_center_def)
      with ne have "nw ! i =
          (sum_list (map fst (select_rows pixels ls i)) / real (length (select_rows pixels ls i)),
           sum_list (map (fst \<circ> snd) (select_rows pixels ls i))
             / real (length (select_rows pixels ls i)),
           sum_list (map (snd \<circ> snd) (select_rows pixels ls i))
             / real (length (select_rows pixels ls i)))"
        by (simp add: mean_axis0_def)
      with ne show ?thesis unfolding sel by simp
    qed
    have b: "nw ! i = ps ! i" if "i \<notin> set ls"
      using nc that by (auto simp: new_center_def split: if_splits)
    from a b show ?thesis unfolding Let_def by blast
  qed
  have partA: "(\<forall>new. length lbls = length pixels \<longrightarrow> update pixels lbls cs n = Inr new \<longrightarrow>
      (\<forall>k<n. let rows = map ((!) pixels) (filter (\<lambda>j. lbls ! j = k) [0..<length pixels]) in
          (k \<in> set (lbls) \<longrightarrow> rows \<noteq> [] \<and>
             new ! k = (sum_list (map fst rows) / real (length rows),
                        sum_list (map (fst \<circ> snd) rows) / real (length rows),
                        sum_list (map (snd \<circ> snd) rows) / real (length rows))) \<and>
          (k \<notin> set (lbls) \<longrightarrow> new ! k = cs ! k)))"
    using mop by blast
  have partOld: "(length (c # cs') = n \<longrightarrow>
      (\<exists>new. update pixels (assign pixels c cs') (c # cs') n = Inr new))"
    by (auto intro!: update_defined simp: length_assign)
  have partB: "\<exists>a as new. centers st = a # as \<and>
         update pixels (assign pixels a as) (centers st) n = Inr new \<and> length new = n \<and>
         (\<forall>k<n. let rows = map ((!) pixels) (filter (\<lambda>j. assign pixels a as ! j = k) [0..<length pixels]) in
            (k \<in> set (assign pixels a as) \<longrightarrow> rows \<noteq> [] \<and>
               new ! k = (sum_list (map fst rows) / real (length rows),
                          sum_list (map (fst \<circ> snd) rows) / real (length rows),
                          sum_list (map (snd \<circ> snd) rows) / real (length rows))) \<and>
            (k \<notin> set (assign pixels a as) \<longrightarrow> new ! k = centers st ! k)) \<and>
         iteration pixels n st =
           (if allclose (centers st) new = Inr True
            then Inr (Break (st\<lparr>labels := Some (assign pixels a as), iterations := Suc (iterations st)\<rparr>))
            else Inr (Continue \<lparr>centers = new, labels = Some (assign pixels a as), iterations = Suc (iterations st)\<rparr>)) \<and>
         for_range (Suc m) (iteration pixels n) st =
           (if allclose (centers st) new = Inr True
            then Inr (st\<lparr>labels := Some (assign pixels a as), iterations := Suc (iterations st)\<rparr>)
            else for_range m (iteration pixels n) \<lparr>centers = new, labels = Some (assign pixels a as), iterations = Suc (iterations st)\<rparr>)"
    if len: "length (centers st) = n" and n: "1 \<le> n"
  proof -
    from len n obtain a as where c: "centers st = a # as"
      by (cases "centers st") auto
    from update_defined[of "assign pixels a as" pixels n "centers st"] len
    obtain new where new: "update pixels (assign pixels a as) (centers st) n = Inr new"
      by (auto simp: length_assign)
    have lnew: "length new = n" using new by (rule update_length)
    have m: "\<forall>k<n. let rows = map ((!) pixels) (filter (\<lambda>j. assign pixels a as ! j = k) [0..<length pixels]) in
            (k \<in> set (assign pixels a as) \<longrightarrow> rows \<noteq> [] \<and>
               new ! k = (sum_list (map fst rows) / real (length rows),
                          sum_list (map (fst \<circ> snd) rows) / real (length rows),
                          sum_list (map (snd \<circ> snd) rows) / real (length rows))) \<and>
            (k \<notin> set (assign pixels a as) \<longrightarrow> new ! k = centers st ! k)"
      using mop[OF length_assign new] by blast
    have ac: "allclose (centers st) new = Inr (list_all2 isclose_row (centers st) new)"
      using lnew len c by (intro allclose_same_length) simp_all
    have it: "iteration pixels n st =
           (if allclose (centers st) new = Inr True
            then Inr (Break (st\<lparr>labels := Some (assign pixels a as), iterations := Suc (iterations st)\<rparr>))
            else Inr (Continue \<lparr>centers = new, labels = Some (assign pixels a as), iterations = Suc (iterations st)\<rparr>))"
      using c new ac by (simp add: iteration_def Let_def)
    have fr: "for_range (Suc m) (iteration pixels n) st =
           (if allclose (centers st) new = Inr True
            then Inr (st\<lparr>labels := Some (assign pixels a as), iterations := Suc (iterations st)\<rparr>)
            else for_range m (iteration pixels n) \<lparr>centers = new, labels = Some (assign pixels a as), iterations = Suc (iterations st)\<rparr>)"
      by (simp only: for_range.simps it split: if_splits) simp
    show ?thesis
      apply (rule exI[of _ a], rule exI[of _ as], rule exI[of _ new])
      apply (intro conjI)
           apply (rule c)
          apply (rule new)
         apply (rule lnew)
        apply (rule m)
       apply (rule it)
      apply (rule fr)
      done
  qed
  have partC: "\<exists>prev new. length prev = nat n_clusters \<and> final_lbls = assign pixels (hd prev) (tl prev) \<and>
         update pixels final_lbls prev (nat n_clusters) = Inr new \<and>
         (\<forall>k<nat n_clusters. let rows = map ((!) pixels) (filter (\<lambda>j. final_lbls ! j = k) [0..<length pixels]) in
            (k \<in> set (final_lbls) \<longrightarrow> rows \<noteq> [] \<and>
               new ! k = (sum_list (map fst rows) / real (length rows),
                          sum_list (map (fst \<circ> snd) rows) / real (length rows),
                          sum_list (map (snd \<circ> snd) rows) / real (length rows))) \<and>
            (k \<notin> set (final_lbls) \<longrightarrow> new ! k = prev ! k)) \<and>
         (centers final = prev \<or> centers final = new)"
    if run: "kmeans_run R pixels n_clusters max_iterations random_state = Inr final"
      and l: "labels final = Some final_lbls" for final final_lbls
  proof -
    from kmeans_run_labelled[OF run l] obtain a as new where
      r: "length (a # as) = nat n_clusters" "final_lbls = assign pixels a as"
         "update pixels final_lbls (a # as) (nat n_clusters) = Inr new"
         "centers final = a # as \<or> centers final = new"
      by blast
    have m: "\<forall>k<nat n_clusters. let rows = map ((!) pixels) (filter (\<lambda>j. final_lbls ! j = k) [0..<length pixels]) in
            (k \<in> set (final_lbls) \<longrightarrow> rows \<noteq> [] \<and>
               new ! k = (sum_list (map fst rows) / real (length rows),
                          sum_list (map (fst \<circ> snd) rows) / real (length rows),
                          sum_list (map (snd \<circ> snd) rows) / real (length rows))) \<and>
            (k \<notin> set (final_lbls) \<longrightarrow> new ! k = (a # as) ! k)"
      using mop[OF _ r(3)] r(2) by (simp add: length_assign)
    show ?thesis
      apply (rule exI[of _ "a # as"], rule exI[of _ new])
      apply (intro conjI)
          apply (rule r(1))
         apply (simp add: r(2))
        apply (rule r(3))
       apply (rule m)
      apply (rule r(4))
      done
  qed
  have partD: "kmeans_run R pixels n_clusters max_iterations random_state \<noteq> Inl NaN_center"
  proof
    assume a: "kmeans_run R pixels n_clusters max_iterations random_state = Inl NaN_center"
    show False
    proof (cases "kmeans_plusplus_init R pixels n_clusters (default_rng R random_state)")
      case (Inl e)
      with a have "e = NaN_center" by (simp add: kmeans_run_def)
      with kmeans_plusplus_init_failure[OF Inl] show False by simp
    next
      case (Inr r)
      with a for_range_not_NaN show False
        by (auto simp: kmeans_run_def split: prod.splits)
    qed
  qed
  have partE: "kmeans R pixels n_clusters max_iterations random_state \<noteq> Inl NaN_center"
    using partD by (auto simp: kmeans_def split: sum.splits option.splits)
  show ?thesis
    apply (intro conjI)
         apply (rule partA)
        apply (rule partOld)
       apply (intro impI, erule (1) partB)
      apply (intro allI impI, erule (1) partC)
     apply (rule partD)
    apply (rule partE)
    done
qed

theorem update_mean_or_previous_witness:
  "kmeans_run (replay [2, 1, 0]) [(0,0,0),(0,1,0),(0,2,0),(3,0,0),(3,1,0)] 3 2 42
     = Inr \<lparr>centers = [(0,3/2,0),(3,1,0),(3/2,0,0)], labels = Some [2,0,0,2,1], iterations = 2\<rparr> \<and>
   length (centers \<lparr>centers = [(0,3/2,0),(3,1,0),(3/2,0,0)], labels = Some [2,0,0,2,1],
                     iterations = 2\<rparr>) = 3 \<and>
   assign [(0,0,0),(0,1,0),(0,2,0),(3,0,0),(3,1,0)] (0,3/2,0) [(3,1,0),(3/2,0,0)] = [0,0,0,1,1] \<and>
   length [0,0,0,1,1::nat] = length [(0,0,0),(0,1,0),(0,2,0),(3,0,0),(3::real,1::real,0::real)] \<and>
   update [(0,0,0),(0,1,0),(0,2,0),(3,0,0),(3,1,0)] [0,0,0,1,1]
       [(0,3/2,0),(3,1,0),(3/2,0,0)] 3
     = Inr [(0,1,0),(3,1/2,0),(3/2,0,0)] \<and>
   (0::nat) \<in> set [0,0,0,1,1] \<and> (2::nat) \<notin> set [0,0,0,1,1] \<and>
   [(0,1,0),(3,1/2,0),(3/2::real,0::real,0::real)] ! 2 = [(0,3/2,0),(3,1,0),(3/2,0,0)] ! 2 \<and>
   iteration [(0,0,0),(0,1,0),(0,2,0),(3,0,0),(3,1,0)] 3
       \<lparr>centers = [(0,3/2,0),(3,1,0),(3/2,0,0)], labels = Some [2,0,0,2,1], iterations = 2\<rparr>
     = Inr (Continue \<lparr>centers = [(0,1,0),(3,1/2,0),(3/2,0,0)], labels = Some [0,0,0,1,1],
                       iterations = 3\<rparr>) \<and>
   kmeans_run (replay [2, 1, 0]) [(0,0,0),(0,1,0),(0,2,0),(3,0,0),(3,1,0)] 3 2 42
     \<noteq> Inl NaN_center"
proof -
  let ?P = "[(0,0,0),(0,1,0),(0,2,0),(3,0,0),(3::real,1::real,0::real)]"
  let ?cs = "[(0,3/2,0),(3,1,0),(3/2::real,0::real,0::real)]"
  let ?st = "\<lparr>centers = ?cs, labels = Some [2,0,0,2,1], iterations = 2\<rparr>"
  note t = update_mean_or_previous[where lbls = "[0,0,0,1,1]" and pixels = ?P and cs = ?cs
      and n = 3 and st = ?st and R = "replay [2, 1, 0]" and n_clusters = 3
      and max_iterations = 2 and random_state = 42]
  have run: "kmeans_run (replay [2, 1, 0]) ?P 3 2 42 = Inr ?st"
    by (simp add: run_defs)
  have a: "assign ?P (0,3/2,0) [(3,1,0),(3/2,0,0)] = [0,0,0,1,1]"
    by (simp add: run_defs)
  have len: "length [0,0,0,1,1::nat] = length ?P" by simp
  have u: "update ?P [0,0,0,1,1] ?cs 3 = Inr [(0,1,0),(3,1/2,0),(3/2,0,0)]"
    by (simp add: run_defs)
  have kept: "[(0,1,0),(3,1/2,0),(3/2::real,0::real,0::real)] ! 2 = ?cs ! 2"
    using t[THEN conjunct1, rule_format, OF len u, of 2] by (simp add: Let_def)
  have it: "iteration ?P 3 ?st
     = Inr (Continue \<lparr>centers = [(0,1,0),(3,1/2,0),(3/2,0,0)], labels = Some [0,0,0,1,1],
                       iterations = 3\<rparr>)"
    by (simp add: run_defs)
  have nan: "kmeans_run (replay [2, 1, 0]) ?P 3 2 42 \<noteq> Inl NaN_center"
    by (rule t[THEN conjunct2, THEN conjunct2, THEN conjunct2, THEN conjunct2, THEN conjunct1])
  from run a len u kept it nan show ?thesis by simp
qed

text \<open>
  C3.  For centres \<open>c # cs\<close> (at least one), the assignment phase gives each pixel one
  label, an index into the centres, at which the squared distance to the pixel is
  minimal, every centre with a lower index being strictly farther.  The labels that
  \<^verbatim>\<open>kmeans\<close> returns are such an assignment against \<open>n_clusters\<close> centres: as many labels as
  pixels, each below \<open>n_clusters\<close>.
\<close>

theorem assign_nearest_lowest_index:
  "length (assign pixels c cs) = length pixels \<and>
   (\<forall>j<length pixels.
      assign pixels c cs ! j < length (c # cs) \<and>
      (\<forall>i<length (c # cs). sq_dist (pixels ! j) ((c # cs) ! (assign pixels c cs ! j))
                             \<le> sq_dist (pixels ! j) ((c # cs) ! i)) \<and>
      (\<forall>i<assign pixels c cs ! j. sq_dist (pixels ! j) ((c # cs) ! (assign pixels c cs ! j))
                             < sq_dist (pixels ! j) ((c # cs) ! i))) \<and>
   (\<forall>final lbls.
      kmeans R pixels n_clusters max_iterations random_state = Inr (final, lbls) \<longrightarrow>
        length lbls = length pixels \<and> (\<forall>l\<in>set lbls. int l < n_clusters) \<and>
        (\<exists>c' cs'. int (length (c' # cs')) = n_clusters \<and> lbls = assign pixels c' cs'))"
proof -
  have part1: "length (assign pixels c cs) = length pixels" by (rule length_assign)
  have part2: "\<forall>j<length pixels.
      assign pixels c cs ! j < length (c # cs) \<and>
      (\<forall>i<length (c # cs). sq_dist (pixels ! j) ((c # cs) ! (assign pixels c cs ! j))
                             \<le> sq_dist (pixels ! j) ((c # cs) ! i)) \<and>
      (\<forall>i<assign pixels c cs ! j. sq_dist (pixels ! j) ((c # cs) ! (assign pixels c cs ! j))
                             < sq_dist (pixels ! j) ((c # cs) ! i))"
    using assign_label[of _ pixels c cs] by blast
  have part3: "length lbls = length pixels \<and> (\<forall>l\<in>set lbls. int l < n_clusters) \<and>
        (\<exists>c' cs'. int (length (c' # cs')) = n_clusters \<and> lbls = assign pixels c' cs')"
    if k: "kmeans R pixels n_clusters max_iterations random_state = Inr (final, lbls)"
    for final lbls
  proof -
    from k obtain st where
      st: "kmeans_run R pixels n_clusters max_iterations random_state = Inr st"
        "labels st = Some lbls"
      by (auto simp: kmeans_def split: sum.splits option.splits)
    from kmeans_run_labelled[OF st] obtain c' cs' where
      c': "1 \<le> n_clusters" "length (c' # cs') = nat n_clusters" "lbls = assign pixels c' cs'"
      by blast
    have "length lbls = length pixels" using c'(3) by (simp add: length_assign)
    moreover have "\<forall>l\<in>set lbls. int l < n_clusters"
    proof
      fix l assume "l \<in> set lbls"
      then have "l < Suc (length cs')" using c'(3) assign_lt by blast
      then show "int l < n_clusters" using c'(1,2) by simp
    qed
    moreover have "int (length (c' # cs')) = n_clusters" using c'(1,2) by simp
    then have "\<exists>c' cs'. int (length (c' # cs')) = n_clusters \<and> lbls = assign pixels c' cs'"
      using c'(3) by blast
    ultimately show ?thesis by blast
  qed
  from part1 part2 part3 show ?thesis by blast
qed

theorem assign_nearest_lowest_index_witness:
  "(1::nat) < length [(0,0,0),(4,0,0),(5,0,0),(20::real,0::real,0::real)] \<and>
   kmeans (replay [0, 2]) [(0,0,0),(4,0,0),(5,0,0),(20,0,0)] 2 1 42
     = Inr ([(0,0,0),(29/3,0,0)], [0,1,1,1]) \<and>
   assign [(0,0,0),(4,0,0),(5,0,0),(20,0,0)] (0,0,0) [(5,0,0)] ! 1 < length [(0,0,0),(5::real,0::real,0::real)] \<and>
   length [0,1,1,1::nat] = length [(0,0,0),(4,0,0),(5,0,0),(20::real,0::real,0::real)] \<and>
   int ([0,1,1,1::nat] ! 3) < 2"
proof -
  have k: "kmeans (replay [0, 2]) [(0,0,0),(4,0,0),(5,0,0),(20,0,0)] 2 1 42
     = Inr ([(0,0,0),(29/3,0,0)], [0,1,1,1])"
    by (simp add: run_defs upt_rec)
  have j: "(1::nat) < length [(0,0,0),(4,0,0),(5,0,0),(20::real,0::real,0::real)]" by simp
  from assign_nearest_lowest_index[of "[(0,0,0),(4,0,0),(5,0,0),(20,0,0)]" "(0,0,0)" "[(5,0,0)]"
      "replay [0, 2]" 2 1 42] k j
  show ?thesis by simp
qed

text \<open>
  C4.  \<^verbatim>\<open>kmeans\<close> is a total function: both of its loops are \<^verbatim>\<open>for\<close> loops over a range.
  A run that reaches its \<^verbatim>\<open>return\<close> has executed at most \<open>max_iterations\<close> iterations of
  the loop body, and fewer only when the convergence test of its last iteration held.
  When seeding succeeds and \<open>n_clusters \<ge> 1\<close>, the loop always reaches the \<^verbatim>\<open>return\<close>.
\<close>

theorem kmeans_iteration_cap:
  "(\<forall>st. kmeans_run R pixels n_clusters max_iterations random_state = Inr st \<longrightarrow>
      int (iterations st) \<le> max 0 max_iterations \<and>
      (\<forall>lbls. labels st = Some lbls \<longrightarrow>
         iterations st = nat max_iterations \<or>
         (\<exists>new. update pixels lbls (centers st) (nat n_clusters) = Inr new \<and>
                allclose (centers st) new = Inr True))) \<and>
   (\<forall>centers0 rng'. 1 \<le> n_clusters \<longrightarrow>
      kmeans_plusplus_init R pixels n_clusters (default_rng R random_state)
        = Inr (centers0, rng') \<longrightarrow>
      (\<exists>st. kmeans_run R pixels n_clusters max_iterations random_state = Inr st))"
proof -
  have part1: "int (iterations st) \<le> max 0 max_iterations"
    if run: "kmeans_run R pixels n_clusters max_iterations random_state = Inr st" for st
  proof -
    from run obtain centers0 rng' where
      "for_range (nat max_iterations) (iteration pixels (nat n_clusters))
          \<lparr>centers = centers0, labels = None, iterations = 0\<rparr> = Inr st"
      by (rule kmeans_run_Inr)
    from for_range_iterations_le[OF this] show ?thesis by simp
  qed
  have part2: "iterations st = nat max_iterations \<or>
         (\<exists>new. update pixels lbls (centers st) (nat n_clusters) = Inr new \<and>
                allclose (centers st) new = Inr True)"
    if run: "kmeans_run R pixels n_clusters max_iterations random_state = Inr st"
      and l: "labels st = Some lbls" for st lbls
    using kmeans_run_labelled[OF run l] by auto
  have part3: "\<exists>st. kmeans_run R pixels n_clusters max_iterations random_state = Inr st"
    if k: "1 \<le> n_clusters"
      and init: "kmeans_plusplus_init R pixels n_clusters (default_rng R random_state)
        = Inr (centers0, rng')" for centers0 rng'
  proof -
    have "length centers0 = nat n_clusters"
      using kmeans_plusplus_init_centers(2)[OF init] k by simp
    then have "\<exists>st. for_range (nat max_iterations) (iteration pixels (nat n_clusters))
          \<lparr>centers = centers0, labels = None, iterations = 0\<rparr> = Inr st"
      using k by (intro for_range_defined) simp_all
    then show ?thesis using init by (simp add: kmeans_run_def)
  qed
  from part1 part2 part3 show ?thesis by blast
qed

theorem kmeans_iteration_cap_witness:
  "kmeans_run (replay [0, 2]) [(0,0,0),(4,0,0),(5,0,0),(20,0,0)] 2 2 42
     = Inr \<lparr>centers = [(2, 0, 0), (25 / 2, 0, 0)], labels = Some [0, 0, 1, 1], iterations = 2\<rparr> \<and>
   kmeans_plusplus_init (replay [0, 2]) [(0,0,0),(4,0,0),(5,0,0),(20,0,0)] 2 (default_rng (replay [0, 2]) 42)
     = Inr ([(0,0,0),(5,0,0)], []) \<and>
   int (iterations \<lparr>centers = [(2, 0, 0), (25 / 2, 0, 0)], labels = Some [0, 0, 1, 1], iterations = 2\<rparr>)
     \<le> max 0 2"
proof -
  have r: "kmeans_run (replay [0, 2]) [(0,0,0),(4,0,0),(5,0,0),(20,0,0)] 2 2 42
     = Inr \<lparr>centers = [(2, 0, 0), (25 / 2, 0, 0)], labels = Some [0, 0, 1, 1], iterations = 2\<rparr>"
    by (simp add: run_defs upt_rec)
  have i: "kmeans_plusplus_init (replay [0, 2]) [(0,0,0),(4,0,0),(5,0,0),(20,0,0)] 2
      (default_rng (replay [0, 2]) 42) = Inr ([(0,0,0),(5,0,0)], [])"
    by (simp add: run_defs)
  from kmeans_iteration_cap[of "replay [0, 2]" "[(0,0,0),(4,0,0),(5,0,0),(20,0,0)]" 2 2 42] r i
  show ?thesis by simp
qed

text \<open>
  C5 as stated fails.  With one cluster and the two pixels \<open>(200, 0, 0)\<close> and
  \<open>(200.002, 0, 0)\<close> the first update moves the centre from \<open>200\<close> to \<open>200.001\<close>, a
  difference of a thousand times \<open>1e-6\<close>, and the loop stops in that iteration.
\<close>

theorem convergence_absolute_tolerance_counterexample:
  "update [(200,0,0),(200002/1000,0,0)] [0, 0] [(200,0,0)] 1 = Inr [(200001/1000,0,0)] \<and>
   (1 / 1000000 :: real) < \<bar>200 - 200001/1000\<bar> \<and>
   iteration [(200,0,0),(200002/1000,0,0)] 1 \<lparr>centers = [(200,0,0)], labels = None, iterations = 0\<rparr>
     = Inr (Break \<lparr>centers = [(200,0,0)], labels = Some [0, 0], iterations = 1\<rparr>) \<and>
   kmeans_run (replay [0]) [(200,0,0),(200002/1000,0,0)] 1 100 42
     = Inr \<lparr>centers = [(200,0,0)], labels = Some [0, 0], iterations = 1\<rparr>"
  by (simp add: run_defs upt_rec)

text \<open>
  C5, amended.  An iteration that starts with \<open>n\<close> centres (\<open>n \<ge> 1\<close>) stops the loop
  exactly when every component \<open>a\<close> of every previous centre and the corresponding
  component \<open>b\<close> of the new centre satisfy \<open>|a - b| \<le> 1e-8 + 1e-5 * |b|\<close>, the test of
  \<^verbatim>\<open>np.allclose\<close> with its default tolerances; otherwise the loop goes on from the new
  centres with the iterations that remain.
\<close>

theorem convergence_is_allclose:
  assumes "length (centers st) = n" and "1 \<le> n"
  shows "\<exists>c cs new. centers st = c # cs \<and>
     update pixels (assign pixels c cs) (c # cs) n = Inr new \<and>
     for_range (Suc m) (iteration pixels n) st =
       (if \<forall>k<n. case (centers st ! k, new ! k) of
              ((ar, ag, ab), (br, bg, bb)) \<Rightarrow>
                \<bar>ar - br\<bar> \<le> 1 / 100000000 + (1 / 100000) * \<bar>br\<bar> \<and>
                \<bar>ag - bg\<bar> \<le> 1 / 100000000 + (1 / 100000) * \<bar>bg\<bar> \<and>
                \<bar>ab - bb\<bar> \<le> 1 / 100000000 + (1 / 100000) * \<bar>bb\<bar>
        then Inr (st\<lparr>labels := Some (assign pixels c cs), iterations := Suc (iterations st)\<rparr>)
        else for_range m (iteration pixels n)
               \<lparr>centers = new, labels = Some (assign pixels c cs),
                iterations = Suc (iterations st)\<rparr>)"
proof -
  from assms obtain c cs where c: "centers st = c # cs"
    by (cases "centers st") auto
  from update_defined[of "assign pixels c cs" pixels n "c # cs"] assms c
  obtain new where new: "update pixels (assign pixels c cs) (c # cs) n = Inr new"
    by (auto simp: length_assign)
  let ?close = "\<forall>k<n. case (centers st ! k, new ! k) of
              ((ar, ag, ab), (br, bg, bb)) \<Rightarrow>
                \<bar>ar - br\<bar> \<le> 1 / 100000000 + (1 / 100000) * \<bar>br\<bar> \<and>
                \<bar>ag - bg\<bar> \<le> 1 / 100000000 + (1 / 100000) * \<bar>bg\<bar> \<and>
                \<bar>ab - bb\<bar> \<le> 1 / 100000000 + (1 / 100000) * \<bar>bb\<bar>"
  let ?stop = "st\<lparr>labels := Some (assign pixels c cs), iterations := Suc (iterations st)\<rparr>"
  let ?go = "\<lparr>centers = new, labels = Some (assign pixels c cs),
                iterations = Suc (iterations st)\<rparr>"
  have len: "length new = n" using new by (rule update_length)
  have ac: "allclose (c # cs) new = Inr (list_all2 isclose_row (c # cs) new)"
    using len assms c by (intro allclose_same_length) simp_all
  have row: "isclose_row a b \<longleftrightarrow> (case (a, b) of
              ((ar, ag, ab), (br, bg, bb)) \<Rightarrow>
                \<bar>ar - br\<bar> \<le> 1 / 100000000 + (1 / 100000) * \<bar>br\<bar> \<and>
                \<bar>ag - bg\<bar> \<le> 1 / 100000000 + (1 / 100000) * \<bar>bg\<bar> \<and>
                \<bar>ab - bb\<bar> \<le> 1 / 100000000 + (1 / 100000) * \<bar>bb\<bar>)" for a b
    by (cases a; cases b) (simp add: isclose_def)
  have all: "list_all2 isclose_row (c # cs) new \<longleftrightarrow> ?close"
    using len assms(1) c by (simp only: list_all2_conv_all_nth row) simp
  have it: "iteration pixels n st =
     (if list_all2 isclose_row (c # cs) new then Inr (Break ?stop) else Inr (Continue ?go))"
    using c new ac by (simp add: iteration_def Let_def)
  have "for_range (Suc m) (iteration pixels n) st =
     (if list_all2 isclose_row (c # cs) new then Inr ?stop
      else for_range m (iteration pixels n) ?go)"
    by (simp only: for_range.simps it split: if_splits) simp
  then have run: "for_range (Suc m) (iteration pixels n) st = (if ?close then Inr ?stop
        else for_range m (iteration pixels n) ?go)"
    by (simp only: all)
  show ?thesis
    apply (rule exI[of _ c], rule exI[of _ cs], rule exI[of _ new])
    apply (intro conjI)
      apply (rule c)
     apply (rule new)
    apply (rule run)
    done
qed

theorem convergence_is_allclose_witness:
  "length (centers \<lparr>centers = [(200,0,0)], labels = None, iterations = 0\<rparr>) = 1 \<and>
   (1::nat) \<le> 1 \<and>
   update [(200,0,0),(200002/1000,0,0)] (assign [(200,0,0),(200002/1000,0,0)] (200,0,0) []) [(200,0,0)] 1
     = Inr [(200001/1000,0,0)] \<and>
   for_range (Suc 99) (iteration [(200,0,0),(200002/1000,0,0)] 1)
       \<lparr>centers = [(200,0,0)], labels = None, iterations = 0\<rparr>
     = Inr \<lparr>centers = [(200,0,0)], labels = Some [0, 0], iterations = 1\<rparr>"
proof -
  have l: "length (centers \<lparr>centers = [(200,0,0)], labels = None, iterations = 0::nat\<rparr>) = 1"
    by simp
  have u: "update [(200,0,0),(200002/1000,0,0)]
      (assign [(200,0,0),(200002/1000,0,0)] (200,0,0) []) [(200,0,0)] 1
     = Inr [(200001/1000,0,0)]"
    by (simp add: run_defs upt_rec)
  from convergence_is_allclose[OF l order_refl, of "[(200,0,0),(200002/1000,0,0)]" 99] u
  show ?thesis by (simp add: run_defs)
qed

text \<open>
  C6.  When \<^verbatim>\<open>extract_colors_from_image\<close> returns, the list it sorts has one entry per
  cluster index below \<open>num_colors\<close>, in index order; the percentage of entry \<open>i\<close> is the
  number of pixels labelled \<open>i\<close>, divided by the number of labels, times 100, and it is 0
  for an index that labels no pixel.  The returned list is a rearrangement of that list
  and its percentages add up to 100 (exactly, in the real arithmetic of the model).
\<close>

theorem percentages_by_count:
  assumes "extract_colors_from_image R pixels num_colors = Inr results"
  shows "\<exists>cs lbls per_cluster.
     kmeans R pixels num_colors 100 42 = Inr (cs, lbls) \<and>
     collect (map (cluster_result cs lbls) [0..<nat num_colors]) = Inr per_cluster \<and>
     length per_cluster = nat num_colors \<and>
     mset results = mset per_cluster \<and>
     (\<forall>i<nat num_colors.
        percentage (per_cluster ! i) = real (count_list lbls i) / real (length lbls) * 100 \<and>
        (count_list lbls i = 0 \<longrightarrow> percentage (per_cluster ! i) = 0)) \<and>
     sum_list (map percentage results) = 100"
proof -
  from assms obtain cs lbls where
    k: "kmeans R pixels num_colors 100 42 = Inr (cs, lbls)" and
    res: "results = sort_key (\<lambda>x. - percentage x)
       (map (\<lambda>k. \<lparr>hex = hex_color (cs ! k),
          percentage = real (count_list lbls k) / real (length lbls) * 100\<rparr>) [0..<nat num_colors])"
    by (rule extract_colors_from_image_Inr)
  let ?n = "nat num_colors"
  let ?per = "map (\<lambda>k. \<lparr>hex = hex_color (cs ! k),
          percentage = real (count_list lbls k) / real (length lbls) * 100\<rparr>) [0..<?n]"
  have c: "collect (map (cluster_result cs lbls) [0..<?n]) = Inr ?per"
    using kmeans_Inr(2)[OF k] by (intro collect_cluster_results) simp
  have len: "length ?per = ?n" by simp
  have ms: "mset results = mset ?per" unfolding res by simp
  have pct: "\<forall>i<?n. percentage (?per ! i) = real (count_list lbls i) / real (length lbls) * 100 \<and>
        (count_list lbls i = 0 \<longrightarrow> percentage (?per ! i) = 0)"
    by simp
  have pos: "0 < length lbls" using kmeans_Inr(3,4)[OF k] by simp
  have "sum_list (map percentage results) = sum_list (map percentage ?per)"
    using ms by (rule sum_list_map_mset_cong)
  also have "\<dots> = (\<Sum>k<?n. real (count_list lbls k) / real (length lbls) * 100)"
    by (simp add: comp_def interv_sum_list_conv_sum_set_nat atLeast0LessThan)
  also have "\<dots> = real (\<Sum>k<?n. count_list lbls k) / real (length lbls) * 100"
    by (simp add: sum_divide_distrib sum_distrib_right)
  also have "\<dots> = real (length lbls) / real (length lbls) * 100"
    using sum_count_list_upt[of lbls ?n] kmeans_Inr(5)[OF k] by simp
  also have "\<dots> = 100" using pos by simp
  finally have total: "sum_list (map percentage results) = 100" .
  show ?thesis
    apply (rule exI[of _ cs], rule exI[of _ lbls], rule exI[of _ ?per])
    apply (intro conjI)
         apply (rule k)
        apply (rule c)
       apply (rule len)
      apply (rule ms)
     apply (rule pct)
    apply (rule total)
    done
qed

theorem percentages_by_count_witness:
  "extract_colors_from_image (replay [0, 2]) [(0,0,0),(4,0,0),(5,0,0),(20,0,0)] 2 =
     Inr [\<lparr>hex = ''#030000'', percentage = 75\<rparr>, \<lparr>hex = ''#140000'', percentage = 25\<rparr>] \<and>
   kmeans (replay [0, 2]) [(0,0,0),(4,0,0),(5,0,0),(20,0,0)] 2 100 42
     = Inr ([(3, 0, 0), (20, 0, 0)], [0, 0, 0, 1]) \<and>
   real (count_list [0, 0, 0, 1::nat] 0) / real (length [0, 0, 0, 1::nat]) * 100 = 75 \<and>
   sum_list (map percentage
     [\<lparr>hex = ''#030000'', percentage = 75\<rparr>, \<lparr>hex = ''#140000'', percentage = 25\<rparr>]) = 100"
proof -
  have e: "extract_colors_from_image (replay [0, 2]) [(0,0,0),(4,0,0),(5,0,0),(20,0,0)] 2 =
     Inr [\<lparr>hex = ''#030000'', percentage = 75\<rparr>, \<lparr>hex = ''#140000'', percentage = 25\<rparr>]"
    by (simp add: run_defs agg_defs upt_rec)
  have k: "kmeans (replay [0, 2]) [(0,0,0),(4,0,0),(5,0,0),(20,0,0)] 2 100 42
     = Inr ([(3, 0, 0), (20, 0, 0)], [0, 0, 0, 1])"
    by (simp add: run_defs upt_rec)
  from percentages_by_count[OF e] e k show ?thesis by simp
qed

text \<open>
  C7.  The only randomness \<^verbatim>\<open>kmeans\<close> reads is what it draws from the generator it builds
  from \<open>random_state\<close>: two runs on the same pixels, cluster count, iteration cap and seed,
  each with a generator of its own, return the same centres and labels (or raise the same
  exception) whenever the two generators are seeded alike and draw alike.
  \<^verbatim>\<open>extract_colors_from_image\<close> calls \<^verbatim>\<open>kmeans\<close> with the seed 42 and 100 iterations and is a
  function of that result, so its colour list is the same as well.
\<close>

theorem kmeans_deterministic:
  assumes seed: "\<forall>s. rel (default_rng R1 s) (default_rng R2 s)"
    and ints: "\<forall>g1 g2 n. rel g1 g2 \<longrightarrow>
      fst (rng_integers R1 g1 n) = fst (rng_integers R2 g2 n) \<and>
      rel (snd (rng_integers R1 g1 n)) (snd (rng_integers R2 g2 n))"
    and ch: "\<forall>g1 g2 n p. rel g1 g2 \<longrightarrow>
      fst (rng_choice R1 g1 n p) = fst (rng_choice R2 g2 n p) \<and>
      rel (snd (rng_choice R1 g1 n p)) (snd (rng_choice R2 g2 n p))"
  shows "kmeans R1 pixels n_clusters max_iterations random_state
       = kmeans R2 pixels n_clusters max_iterations random_state \<and>
     extract_colors_from_image R1 pixels num_colors
       = extract_colors_from_image R2 pixels num_colors \<and>
     extract_colors_from_image R1 pixels num_colors =
       (case kmeans R1 pixels num_colors 100 42 of
          Inl e \<Rightarrow> Inl e
        | Inr (cs, lbls) \<Rightarrow>
            Inr (sort_key (\<lambda>x. - percentage x)
              (map (\<lambda>k. \<lparr>hex = hex_color (cs ! k),
                 percentage = real (count_list lbls k) / real (length lbls) * 100\<rparr>)
               [0..<nat num_colors])))"
proof -
  have run: "kmeans_run R1 pixels k m s = kmeans_run R2 pixels k m s" for k m s
    using seed ints ch by (rule kmeans_run_same_draws)
  have km: "kmeans R1 pixels k m s = kmeans R2 pixels k m s" for k m s
    by (simp add: kmeans_def run)
  have ex: "extract_colors_from_image R1 pixels num_colors
       = extract_colors_from_image R2 pixels num_colors"
    by (simp add: extract_colors_from_image_def km)
  have fn: "extract_colors_from_image R1 pixels num_colors =
       (case kmeans R1 pixels num_colors 100 42 of
          Inl e \<Rightarrow> Inl e
        | Inr (cs, lbls) \<Rightarrow>
            Inr (sort_key (\<lambda>x. - percentage x)
              (map (\<lambda>k. \<lparr>hex = hex_color (cs ! k),
                 percentage = real (count_list lbls k) / real (length lbls) * 100\<rparr>)
               [0..<nat num_colors])))"
  proof (cases "kmeans R1 pixels num_colors 100 42")
    case (Inl e)
    then show ?thesis by (simp add: extract_colors_from_image_def)
  next
    case (Inr r)
    obtain cs lbls where r: "r = (cs, lbls)" by (cases r)
    have "nat num_colors \<le> length cs" using kmeans_Inr(2)[OF Inr[unfolded r]] by simp
    from collect_cluster_results[OF this, of lbls] Inr r show ?thesis
      by (simp add: extract_colors_from_image_def)
  qed
  from km ex fn show ?thesis by blast
qed

theorem kmeans_deterministic_witness:
  "kmeans (replay [0, 2]) [(0,0,0),(4,0,0),(5,0,0),(20,0,0)] 2 100 42
     = kmeans (replay [0, 2]) [(0,0,0),(4,0,0),(5,0,0),(20,0,0)] 2 100 42 \<and>
   kmeans (replay [0, 2]) [(0,0,0),(4,0,0),(5,0,0),(20,0,0)] 2 100 42
     = Inr ([(3, 0, 0), (20, 0, 0)], [0, 0, 0, 1]) \<and>
   extract_colors_from_image (replay [0, 2]) [(0,0,0),(4,0,0),(5,0,0),(20,0,0)] 2 =
     Inr [\<lparr>hex = ''#030000'', percentage = 75\<rparr>, \<lparr>hex = ''#140000'', percentage = 25\<rparr>]"
proof -
  have k: "kmeans (replay [0, 2]) [(0,0,0),(4,0,0),(5,0,0),(20,0,0)] 2 100 42
     = Inr ([(3, 0, 0), (20, 0, 0)], [0, 0, 0, 1])"
    by (simp add: run_defs upt_rec)
  have h: "hex_color (3, 0, 0) = ''#030000''" "hex_color (20, 0, 0) = ''#140000''"
    by (simp_all add: agg_defs)
  from kmeans_deterministic[of "(=)" "replay [0, 2]" "replay [0, 2]"
      "[(0,0,0),(4,0,0),(5,0,0),(20,0,0)]" 2 100 42 2] k h
  show ?thesis by (simp add: upt_rec)
qed



text \<open>
  C9: with three pixels of which two are equal, three clusters are within the claim's
  bound, but once both distinct colours are centres every distance is zero and the third
  draw raises \<^verbatim>\<open>ValueError\<close> (the defect of C1); no centres are returned.
\<close>

theorem seeding_fewer_distinct_pixels_raises:
  "int (length [(0,0,0),(255,255,255),(0::real,0::real,0::real)]) = 3 \<and>
   kmeans_plusplus_init (replay [0, 1, 2]) [(0,0,0),(255,255,255),(0,0,0)] 3
       (default_rng (replay [0, 1, 2]) 42)
     = Inl ValueError \<and>
   kmeans_plusplus_init (replay [1, 0, 2]) [(0,0,0),(255,255,255),(0,0,0)] 3
       (default_rng (replay [1, 0, 2]) 42)
     = Inl ValueError"
  by (simp add: run_defs numeral_2_eq_2)

text \<open>
  C10.  The labels that a run returns are the assignment against the centres \<open>c # cs\<close>
  that the last executed iteration started from.  If that iteration's convergence test
  held, the returned centres are \<open>c # cs\<close>.  Otherwise the loop ran out of iterations and
  the returned centres are the update of \<open>c # cs\<close>; then a label need not be the index of
  the nearest returned centre: with one iteration on the four pixels below, the second
  pixel keeps label 1 although the returned centre 0 is nearer.
\<close>

theorem kmeans_labels_of_last_iteration:
  "(\<forall>st lbls. kmeans_run R pixels n_clusters max_iterations random_state = Inr st \<longrightarrow>
      labels st = Some lbls \<longrightarrow>
      (\<exists>c cs new. lbls = assign pixels c cs \<and>
         update pixels lbls (c # cs) (nat n_clusters) = Inr new \<and>
         (allclose (c # cs) new = Inr True \<and> centers st = c # cs
          \<or> allclose (c # cs) new = Inr False \<and> centers st = new \<and>
            iterations st = nat max_iterations))) \<and>
   kmeans (replay [0, 2]) [(0,0,0),(4,0,0),(5,0,0),(20,0,0)] 2 1 42
     = Inr ([(0,0,0),(29/3,0,0)], [0,1,1,1]) \<and>
   sq_dist (4,0,0) ([(0,0,0),(29/3,0,0)] ! 0) < sq_dist (4,0,0) ([(0,0,0),(29/3,0,0)] ! 1)"
proof -
  have part1: "\<exists>c cs new. lbls = assign pixels c cs \<and>
         update pixels lbls (c # cs) (nat n_clusters) = Inr new \<and>
         (allclose (c # cs) new = Inr True \<and> centers st = c # cs
          \<or> allclose (c # cs) new = Inr False \<and> centers st = new \<and>
            iterations st = nat max_iterations)"
    if run: "kmeans_run R pixels n_clusters max_iterations random_state = Inr st"
      and l: "labels st = Some lbls" for st lbls
    using kmeans_run_labelled[OF run l] by blast
  have part2: "kmeans (replay [0, 2]) [(0,0,0),(4,0,0),(5,0,0),(20,0,0)] 2 1 42
     = Inr ([(0,0,0),(29/3,0,0)], [0,1,1,1])"
    by (simp add: run_defs upt_rec)
  have part3: "sq_dist (4,0,0) ([(0,0,0),(29/3,0,0)] ! 0)
      < sq_dist (4,0,0) ([(0,0,0),(29/3,0,0)] ! 1)"
    by (simp add: power2_eq_square)
  from part1 part2 part3 show ?thesis by blast
qed

theorem kmeans_labels_of_last_iteration_witness:
  "kmeans_run (replay [0, 2]) [(0,0,0),(4,0,0),(5,0,0),(20,0,0)] 2 1 42
     = Inr \<lparr>centers = [(0,0,0),(29/3,0,0)], labels = Some [0,1,1,1], iterations = 1\<rparr> \<and>
   [0,1,1,1] = assign [(0,0,0),(4,0,0),(5,0,0),(20,0,0)] (0,0,0) [(5,0,0)] \<and>
   update [(0,0,0),(4,0,0),(5,0,0),(20,0,0)] [0,1,1,1] [(0,0,0),(5,0,0)] 2
     = Inr [(0,0,0),(29/3,0,0)] \<and>
   allclose [(0,0,0),(5,0,0)] [(0,0,0),(29/3,0,0)] = Inr False"
proof -
  have r: "kmeans_run (replay [0, 2]) [(0,0,0),(4,0,0),(5,0,0),(20,0,0)] 2 1 42
     = Inr \<lparr>centers = [(0,0,0),(29/3,0,0)], labels = Some [0,1,1,1], iterations = 1\<rparr>"
    by (simp add: run_defs upt_rec)
  have a: "[0,1,1,1] = assign [(0,0,0),(4,0,0),(5,0,0),(20,0,0)] (0,0,0) [(5,0,0)]"
    by (simp add: run_defs)
  have u: "update [(0,0,0),(4,0,0),(5,0,0),(20,0,0)] [0,1,1,1] [(0,0,0),(5,0,0)] 2
     = Inr [(0,0,0),(29/3,0,0)]"
    by (simp add: run_defs upt_rec)
  have c: "allclose [(0,0,0),(5,0,0)] [(0,0,0),(29/3,0,0)] = Inr False"
    by (simp add: run_defs)
  from kmeans_labels_of_last_iteration[of "replay [0, 2]" "[(0,0,0),(4,0,0),(5,0,0),(20,0,0)]" 2 1 42]
    r a u c
  show ?thesis by simp
qed

end
